theory Spec2Isabelle
  imports Complex_Main
begin

section \<open>Data model of finance\_tools.py\<close>

text \<open>
  A pandas \<open>Timestamp\<close> of the price tables is a calendar day; it is modelled by its day
  number, so that the difference of two dates is the integer number of days between
  them. Prices are Python floats; they are modelled by real numbers (no rounding, no
  NaN). A Python \<open>dict\<close> is an association list in insertion order whose keys are
  pairwise different.
\<close>

type_synonym date_type = int
type_synonym price_type = real
type_synonym num_touches_type = int
type_synonym level_dict = "(date_type \<times> price_type) list"
type_synonym level_tuple = "num_touches_type \<times> level_dict"
type_synonym index_groups_type = "level_tuple list"

datatype py_error = ValueError string | IndexError | TypeError | StatisticsError | EvalError string

text \<open>
  Class \<open>Support\<close> (and its subclass \<open>Resistance\<close>, which adds no field). The two
  display dictionaries \<open>data_dict\<close> and \<open>breach_data_dict\<close> only hold the same rows
  with the dates printed as strings and are left out.
\<close>

record support =
  stock_name :: string
  num_touches :: num_touches_type
  data :: "(date_type \<times> price_type) list"
  most_recents :: "string \<times> price_type"
  avg :: real
  status :: real
  time_period_int :: int
  days_since_last_tested :: int
  num_days_bw_tests :: "int list"
  is_breached :: bool
  breach_data :: "(date_type \<times> price_type) list"

record stock =
  stock_stock_name :: string
  supports :: "support list"
  resistances :: "support list"
  final_support :: "support option"
  final_resistance :: "support option"
  is_range_bound :: bool
  range_width :: "real option"

section \<open>Python dictionaries, tuples and lists\<close>

text \<open>\<open>d[k] = v\<close>: an existing key keeps its place, a new key goes to the end.\<close>

fun dict_set :: "('k \<times> 'v) list \<Rightarrow> 'k \<Rightarrow> 'v \<Rightarrow> ('k \<times> 'v) list" where
  "dict_set [] k v = [(k, v)]"
| "dict_set ((k', v') # d) k v =
     (if k' = k then (k', v) # d else (k', v') # dict_set d k v)"

text \<open>
  \<open>d[k][k2] = v\<close>: the inner dictionary stored under \<open>k\<close> is changed in place. The
  program only does this for keys it has put into \<open>d\<close> before, so the \<open>KeyError\<close> of a
  missing key does not arise.
\<close>

definition dict_modify :: "('k \<times> 'v) list \<Rightarrow> 'k \<Rightarrow> ('v \<Rightarrow> 'v) \<Rightarrow> ('k \<times> 'v) list" where
  "dict_modify d k f = map (\<lambda>(k', v). if k' = k then (k', f v) else (k', v)) d"

text \<open>
  Equality of two dictionaries, as the interpreter decides it: the same number of
  entries, and every key of the first is in the second with an equal value. The order
  of insertion plays no part.
\<close>

definition dict_eq :: "('k \<times> 'v) list \<Rightarrow> ('k \<times> 'v) list \<Rightarrow> bool" where
  "dict_eq a b \<longleftrightarrow> length a = length b \<and> list_all (\<lambda>(k, v). map_of b k = Some v) a"

text \<open>Equality of two \<open>(touch_count, touches)\<close> tuples, componentwise.\<close>

definition tuple_eq :: "level_tuple \<Rightarrow> level_tuple \<Rightarrow> bool" where
  "tuple_eq g h \<longleftrightarrow> fst g = fst h \<and> dict_eq (snd g) (snd h)"

text \<open>
  \<open>x in xs\<close> and \<open>xs.remove(x)\<close>: the first element equal to \<open>x\<close> goes. Python
  raises \<open>ValueError\<close> when there is none; the program only removes what it has found
  with \<open>in\<close>, and so does the model.
\<close>

definition py_in :: "level_tuple \<Rightarrow> index_groups_type \<Rightarrow> bool" where
  "py_in x xs \<longleftrightarrow> list_ex (\<lambda>y. tuple_eq y x) xs"

fun list_remove :: "level_tuple \<Rightarrow> index_groups_type \<Rightarrow> index_groups_type" where
  "list_remove x [] = []"
| "list_remove x (y # ys) = (if tuple_eq y x then ys else y # list_remove x ys)"

section \<open>Tolerance\<close>

text \<open>
  \<open>series_range\<close> is \<open>max(items) - min(items)\<close>; both raise \<open>ValueError\<close> on an empty
  column. In \<open>calculate_tolerance\<close> the last \<open>elif spread > 100\<close> is the only case left
  for a real number.
\<close>

definition series_range :: "real list \<Rightarrow> py_error + real" where
  "series_range items =
     (case items of
        [] \<Rightarrow> Inl (ValueError ''max() arg is an empty sequence'')
      | x # xs \<Rightarrow> Inr (fold max xs x - fold min xs x))"

definition calculate_tolerance :: "real list \<Rightarrow> py_error + int" where
  "calculate_tolerance column =
     (case series_range column of
        Inl e \<Rightarrow> Inl e
      | Inr spread \<Rightarrow>
          Inr (if spread \<le> 50 then 3
               else if 50 < spread \<and> spread \<le> 100 then 5
               else 10))"

definition create_tolerance_function :: "real list \<Rightarrow> py_error + (real \<Rightarrow> real \<Rightarrow> bool)" where
  "create_tolerance_function column =
     (case calculate_tolerance column of
        Inl e \<Rightarrow> Inl e
      | Inr tolerance \<Rightarrow> Inr (\<lambda>value1 value2. \<bar>value1 - value2\<bar> \<le> real_of_int tolerance))"

section \<open>Clustering\<close>

text \<open>
  \<open>at_least_2_common\<close>: the outer loop runs over the keys of the first dictionary, the
  inner loop stops at the first equal key of the second, and the function returns as soon
  as the count reaches 2.
\<close>

fun common_loop :: "nat \<Rightarrow> 'k list \<Rightarrow> 'k list \<Rightarrow> bool" where
  "common_loop count [] keys2 = False"
| "common_loop count (key1 # keys1) keys2 =
     (if key1 \<in> set keys2
      then (if count + 1 = 2 then True else common_loop (count + 1) keys1 keys2)
      else common_loop count keys1 keys2)"

definition at_least_2_common :: "('k \<times> 'v) list \<Rightarrow> ('k \<times> 'v) list \<Rightarrow> bool" where
  "at_least_2_common dict1 dict2 = common_loop 0 (map fst dict1) (map fst dict2)"

definition remove_duplicates :: "index_groups_type \<Rightarrow> index_groups_type" where
  "remove_duplicates values_list =
     fold (\<lambda>v unique_values_list.
             if \<not> py_in v unique_values_list then unique_values_list @ [v]
             else unique_values_list)
          values_list []"

text \<open>
  \<open>create_tolerance_group\<close>: one empty group per candidate price, then every pair of
  candidates (a candidate with itself too) whose prices are within tolerance puts the
  second candidate into the group of the first one's price.
\<close>

definition create_tolerance_group ::
  "level_dict \<Rightarrow> (price_type \<Rightarrow> price_type \<Rightarrow> bool) \<Rightarrow> (price_type \<times> level_dict) list" where
  "create_tolerance_group possible_levels_dict tolerance_function =
     (let items = possible_levels_dict;
          tolerance_groups = fold (\<lambda>value tg. dict_set tg value []) (map snd items) []
      in fold (\<lambda>(key1, value1) tg.
                 fold (\<lambda>(key2, value2) tg'.
                         if tolerance_function value1 value2
                         then dict_modify tg' value1 (\<lambda>d. dict_set d key2 value2)
                         else tg')
                      items tg)
              items tolerance_groups)"

text \<open>
  \<open>manipulate_groups\<close>: groups of at least 3 touches, without duplicates, in descending
  order of the number of touches (\<open>sorted\<close> with \<open>reverse=True\<close> keeps the order of equal
  keys).
\<close>

definition manipulate_groups :: "(price_type \<times> level_dict) list \<Rightarrow> index_groups_type" where
  "manipulate_groups tolerance_groups =
     (let index_groups = map (\<lambda>value. (int (length value), value))
                             (filter (\<lambda>value. length value \<ge> 3) (map snd tolerance_groups));
          index_groups_unique = remove_duplicates index_groups
      in sort_key (\<lambda>x. - fst x) index_groups_unique)"

text \<open>
  \<open>remove_redundant_groups\<close>. The outer \<open>for\<close> walks the list it shortens by position:
  step \<open>i\<close> reads the element now at position \<open>i\<close> and the loop ends when \<open>i\<close> reaches
  the current length. The inner \<open>for\<close> appends to \<open>remove_list\<close>, which is never
  emptied; then every entry of \<open>remove_list\<close> that is still in the list is removed.
\<close>

definition new_removals :: "level_tuple \<Rightarrow> index_groups_type \<Rightarrow> index_groups_type" where
  "new_removals cur gs =
     filter (\<lambda>g. \<not> tuple_eq cur g \<and> at_least_2_common (snd cur) (snd g)) gs"

fun apply_removals :: "index_groups_type \<Rightarrow> index_groups_type \<Rightarrow> index_groups_type" where
  "apply_removals [] gs = gs"
| "apply_removals (r # rs) gs =
     apply_removals rs (if py_in r gs then list_remove r gs else gs)"

lemma length_list_remove: "length (list_remove x ys) \<le> length ys"
  by (induction ys) auto

lemma length_apply_removals: "length (apply_removals rs gs) \<le> length gs"
proof (induction rs arbitrary: gs)
  case Nil
  then show ?case by simp
next
  case (Cons r rs)
  have "length (apply_removals rs (if py_in r gs then list_remove r gs else gs))
        \<le> length (if py_in r gs then list_remove r gs else gs)"
    by (rule Cons.IH)
  also have "\<dots> \<le> length gs" by (simp add: length_list_remove)
  finally show ?case by simp
qed

function rrg_loop :: "nat \<Rightarrow> index_groups_type \<Rightarrow> index_groups_type \<Rightarrow> index_groups_type" where
  "rrg_loop i remove_list gs =
     (if i < length gs
      then rrg_loop (i + 1) (remove_list @ new_removals (gs ! i) gs)
             (apply_removals (remove_list @ new_removals (gs ! i) gs) gs)
      else gs)"
  by pat_completeness auto
termination
proof (relation "measure (\<lambda>(i, remove_list, gs). length gs - i)")
  show "wf (measure (\<lambda>(i, remove_list, gs). length gs - i))" by simp
next
  fix i :: nat and remove_list gs :: index_groups_type
  assume "i < length gs"
  moreover have "length (apply_removals (remove_list @ new_removals (gs ! i) gs) gs) \<le> length gs"
    by (rule length_apply_removals)
  ultimately show "((i + 1, remove_list @ new_removals (gs ! i) gs,
           apply_removals (remove_list @ new_removals (gs ! i) gs) gs), i, remove_list, gs)
         \<in> measure (\<lambda>(i, remove_list, gs). length gs - i)"
    by simp
qed

declare rrg_loop.simps [simp del]

definition remove_redundant_groups :: "index_groups_type \<Rightarrow> index_groups_type" where
  "remove_redundant_groups index_groups_sorted = rrg_loop 0 [] index_groups_sorted"

definition process_groups :: "real list \<Rightarrow> level_dict \<Rightarrow> py_error + index_groups_type" where
  "process_groups series possible_levels_values =
     (case create_tolerance_function series of
        Inl e \<Rightarrow> Inl e
      | Inr within_tolerance \<Rightarrow>
          Inr (remove_redundant_groups
                 (manipulate_groups
                    (create_tolerance_group possible_levels_values within_tolerance))))"

section \<open>Level validation\<close>

text \<open>
  The price table handed to the validators is a two-column data frame: the names of its
  two columns and its rows in table order. The validators assign to \<open>table.columns\<close>,
  which changes the caller's object; each function therefore returns the table as it is
  after the call next to its result, also when it raises.
\<close>

record table =
  columns :: "string \<times> string"
  rows :: "(date_type \<times> price_type) list"

text \<open>\<open>statistics.mean\<close>; it raises \<open>StatisticsError\<close> on an empty sequence.\<close>

definition mean :: "real list \<Rightarrow> py_error + real" where
  "mean xs = (if xs = [] then Inl StatisticsError else Inr (sum_list xs / real (length xs)))"

text \<open>
  \<open>is_support_valid\<close>: \<open>dates[0]\<close> of the dates sorted in descending order raises
  \<open>IndexError\<close> for a level without touches, before the columns are renamed;
  \<open>calculate_tolerance\<close> raises for a table without rows, after they are renamed.
\<close>

definition is_support_valid :: "level_tuple \<Rightarrow> table \<Rightarrow> (py_error + bool) \<times> table" where
  "is_support_valid level table =
     (let dates = rev (sort (map fst (snd level)))
      in case dates of
           [] \<Rightarrow> (Inl IndexError, table)
         | most_recent_date # _ \<Rightarrow>
             (let least_recent_date = last dates
              in case mean (map snd (snd level)) of
                   Inl e \<Rightarrow> (Inl e, table)
                 | Inr avg_price \<Rightarrow>
                     (let table' = table\<lparr>columns := (''date'', ''price'')\<rparr>
                      in case calculate_tolerance (map snd (rows table')) of
                           Inl e \<Rightarrow> (Inl e, table')
                         | Inr tolerance \<Rightarrow>
                             (let invalid_data =
                                    filter (\<lambda>(date, price).
                                              price < avg_price - real_of_int tolerance \<and>
                                              date \<ge> least_recent_date \<and>
                                              date \<le> most_recent_date)
                                           (rows table')
                              in (Inr (invalid_data = []), table')))))"

definition is_support_broken ::
  "level_tuple \<Rightarrow> table \<Rightarrow> (py_error + bool \<times> (date_type \<times> price_type) list) \<times> table" where
  "is_support_broken level table =
     (let dates = rev (sort (map fst (snd level)))
      in case dates of
           [] \<Rightarrow> (Inl IndexError, table)
         | most_recent_date # _ \<Rightarrow>
             (case mean (map snd (snd level)) of
                Inl e \<Rightarrow> (Inl e, table)
              | Inr avg_price \<Rightarrow>
                  (let table' = table\<lparr>columns := (''date'', ''price'')\<rparr>
                   in case calculate_tolerance (map snd (rows table')) of
                        Inl e \<Rightarrow> (Inl e, table')
                      | Inr tolerance \<Rightarrow>
                          (let breach_data =
                                 filter (\<lambda>(date, price).
                                           price < avg_price - real_of_int tolerance \<and>
                                           date > most_recent_date)
                                        (rows table')
                           in (Inr (breach_data \<noteq> [], breach_data), table')))))"

definition is_resistance_valid :: "level_tuple \<Rightarrow> table \<Rightarrow> (py_error + bool) \<times> table" where
  "is_resistance_valid level table =
     (let dates = rev (sort (map fst (snd level)))
      in case dates of
           [] \<Rightarrow> (Inl IndexError, table)
         | most_recent_date # _ \<Rightarrow>
             (let least_recent_date = last dates
              in case mean (map snd (snd level)) of
                   Inl e \<Rightarrow> (Inl e, table)
                 | Inr avg_price \<Rightarrow>
                     (let table' = table\<lparr>columns := (''date'', ''price'')\<rparr>
                      in case calculate_tolerance (map snd (rows table')) of
                           Inl e \<Rightarrow> (Inl e, table')
                         | Inr tolerance \<Rightarrow>
                             (let invalid_data =
                                    filter (\<lambda>(date, price).
                                              price > avg_price + real_of_int tolerance \<and>
                                              date \<ge> least_recent_date \<and>
                                              date \<le> most_recent_date)
                                           (rows table')
                              in (Inr (invalid_data = []), table')))))"

definition is_resistance_broken ::
  "level_tuple \<Rightarrow> table \<Rightarrow> (py_error + bool \<times> (date_type \<times> price_type) list) \<times> table" where
  "is_resistance_broken level table =
     (let dates = rev (sort (map fst (snd level)))
      in case dates of
           [] \<Rightarrow> (Inl IndexError, table)
         | most_recent_date # _ \<Rightarrow>
             (case mean (map snd (snd level)) of
                Inl e \<Rightarrow> (Inl e, table)
              | Inr avg_price \<Rightarrow>
                  (let table' = table\<lparr>columns := (''date'', ''price'')\<rparr>
                   in case calculate_tolerance (map snd (rows table')) of
                        Inl e \<Rightarrow> (Inl e, table')
                      | Inr tolerance \<Rightarrow>
                          (let breach_data =
                                 filter (\<lambda>(date, price).
                                           price > avg_price + real_of_int tolerance \<and>
                                           date > most_recent_date)
                                        (rows table')
                           in (Inr (breach_data \<noteq> [], breach_data), table')))))"

section \<open>Level records\<close>

text \<open>
  \<open>Support.__init__\<close> (inherited by \<open>Resistance\<close>). \<open>datetime.date.today()\<close> is the
  parameter \<open>today\<close>. The data frame \<open>df\<close> holds the touches sorted by date, and
  \<open>df.iloc[-1, 0]\<close> raises \<open>IndexError\<close> when there is none. The day counts are read
  off the printed time differences: a pandas \<open>Timedelta\<close> prints as \<open>N days ...\<close> for
  every \<open>N\<close>, but a \<open>datetime.timedelta\<close> of zero days prints as \<open>0:00:00\<close>, on which
  \<open>int\<close> raises \<open>ValueError\<close>. The gaps between tests are taken along
  \<open>list(data_tuple[1].keys())\<close>, the dictionary's own order.
\<close>

fun day_gaps :: "date_type list \<Rightarrow> int list" where
  "day_gaps (d1 # d2 # ds) = (d2 - d1) # day_gaps (d2 # ds)"
| "day_gaps ds = []"

definition Support_init ::
  "date_type \<Rightarrow> level_tuple \<Rightarrow> bool \<Rightarrow> (date_type \<times> price_type) list \<Rightarrow>
   string \<times> price_type \<Rightarrow> string \<Rightarrow> py_error + support" where
  "Support_init today data_tuple breached breach_rows recents name =
     (let df = sort_key fst (snd data_tuple)
      in if df = [] then Inl IndexError
         else
           (let average = sum_list (map snd df) / real (length df);
                most_recent_date = fst (last df);
                least_recent_date = fst (hd df);
                dates_list = map fst (snd data_tuple)
            in if today - most_recent_date = 0
               then Inl (ValueError ''invalid literal for int() with base 10'')
               else Inr \<lparr> stock_name = name,
                          num_touches = fst data_tuple,
                          data = df,
                          most_recents = recents,
                          avg = average,
                          status = snd recents - average,
                          time_period_int = most_recent_date - least_recent_date,
                          days_since_last_tested = today - most_recent_date,
                          num_days_bw_tests = day_gaps dates_list,
                          is_breached = breached,
                          breach_data = breach_rows \<rparr>))"

section \<open>Condition filter\<close>

subsection \<open>String operations of Python used by the filter\<close>

text \<open>
  Condition strings are ASCII. \<open>lower\<close> is \<open>str.lower\<close>, \<open>contains sub s\<close> is
  \<open>sub in s\<close>, \<open>replace\<close> is \<open>str.replace\<close> (every occurrence from left to right, none
  overlapping; the search string is never empty in this program) and \<open>str_find\<close> is
  \<open>str.find\<close> of one character, with \<open>None\<close> for Python's \<open>-1\<close>.
\<close>

definition lower :: "string \<Rightarrow> string" where
  "lower s =
     map (\<lambda>c. if 65 \<le> (of_char c :: nat) \<and> (of_char c :: nat) \<le> 90
              then char_of ((of_char c :: nat) + 32) else c) s"

definition starts_with :: "string \<Rightarrow> string \<Rightarrow> bool" where
  "starts_with sub s \<longleftrightarrow> take (length sub) s = sub"

fun contains :: "string \<Rightarrow> string \<Rightarrow> bool" where
  "contains sub [] = (sub = [])"
| "contains sub (c # cs) = (starts_with sub (c # cs) \<or> contains sub cs)"

function replace :: "string \<Rightarrow> string \<Rightarrow> string \<Rightarrow> string" where
  "replace old new [] = []"
| "replace old new (c # cs) =
     (if old \<noteq> [] \<and> starts_with old (c # cs)
      then new @ replace old new (drop (length old) (c # cs))
      else c # replace old new cs)"
  by pat_completeness auto
termination
  by (relation "measure (\<lambda>(old, new, s). length s)") auto

fun str_find :: "char \<Rightarrow> string \<Rightarrow> nat option" where
  "str_find x [] = None"
| "str_find x (c # cs) =
     (if c = x then Some 0 else (case str_find x cs of None \<Rightarrow> None | Some k \<Rightarrow> Some (Suc k)))"

text \<open>
  \<open>find_all\<close> of mytools.py: the positions where \<open>substring\<close> starts (or, with
  \<open>lasts\<close>, ends) in \<open>string\<close>. The loop runs over
  \<open>range(length_string - length_substring)\<close>, so an occurrence that ends the string is
  not reported.
\<close>

definition find_all :: "string \<Rightarrow> string \<Rightarrow> bool \<Rightarrow> nat list" where
  "find_all substring string lasts =
     map (\<lambda>index. if lasts then index + length substring - 1 else index)
         (filter (\<lambda>index. take (length substring) (drop index string) = substring)
                 [0 ..< length string - length substring])"

subsection \<open>Preprocessing of the condition strings\<close>

text \<open>
  One round of the loop of \<open>process_num_days_bw_tests\<close>: the occurrence number
  \<open>ocurrence_index\<close> of the pattern is wrapped into \<open>all(...)\<close> up to the next space
  (or up to the end of the string). Reading the lists of positions beyond their end
  raises \<open>IndexError\<close>.
\<close>

definition wrap_occurrence :: "string \<Rightarrow> string \<Rightarrow> nat \<Rightarrow> py_error + string" where
  "wrap_occurrence pat condition ocurrence_index =
     (let firsts = find_all pat condition False;
          lasts = find_all pat condition True
      in if ocurrence_index < length firsts
         then
           (let first_index = firsts ! ocurrence_index;
                last_index = lasts ! ocurrence_index
            in case str_find CHR '' '' (drop (last_index + 1) condition) of
                 None \<Rightarrow>
                   Inr (take first_index condition @ ''all('' @ pat
                        @ drop (last_index + 1) condition @ '')'')
               | Some k \<Rightarrow>
                   (let next_space_index = k + last_index + 1
                    in Inr (take first_index condition @ ''all('' @ pat
                            @ take (next_space_index - (last_index + 1))
                                   (drop (last_index + 1) condition)
                            @ '')'' @ drop next_space_index condition)))
         else Inl IndexError)"

fun wrap_loop :: "string \<Rightarrow> nat list \<Rightarrow> string \<Rightarrow> py_error + string" where
  "wrap_loop pat [] condition = Inr condition"
| "wrap_loop pat (i # is) condition =
     (case wrap_occurrence pat condition i of
        Inl e \<Rightarrow> Inl e
      | Inr condition' \<Rightarrow> wrap_loop pat is condition')"

text \<open>
  \<open>process_num_days_bw_tests\<close> returns the rewritten string; when the pattern is not in
  the string it falls off its end and returns \<open>None\<close>.
\<close>

definition process_num_days_bw_tests ::
  "string \<Rightarrow> string \<Rightarrow> string \<Rightarrow> py_error + string option" where
  "process_num_days_bw_tests condition_str level_type comparison_operator =
     (let pat = level_type @ ''.num_days_bw_tests '' @ comparison_operator @ '' ''
      in if contains pat condition_str
         then (case wrap_loop pat [0 ..< length (find_all pat condition_str False)] condition_str of
                 Inl e \<Rightarrow> Inl e
               | Inr condition \<Rightarrow> Inr (Some condition))
         else Inr None)"

definition replace_if_in :: "string \<Rightarrow> string \<Rightarrow> string \<Rightarrow> string" where
  "replace_if_in old new condition =
     (if contains old condition then replace old new condition else condition)"

text \<open>
  \<open>if pattern in condition: condition = process_num_days_bw_tests(...)\<close>. A result
  \<open>None\<close> would make the next \<open>in\<close> test raise \<open>TypeError\<close>.
\<close>

definition wrap_if_in :: "string \<Rightarrow> string \<Rightarrow> string \<Rightarrow> py_error + string" where
  "wrap_if_in level_type comparison_operator condition =
     (if contains (level_type @ ''.num_days_bw_tests '' @ comparison_operator @ '' '') condition
      then (case process_num_days_bw_tests condition level_type comparison_operator of
              Inl e \<Rightarrow> Inl e
            | Inr None \<Rightarrow> Inl TypeError
            | Inr (Some condition') \<Rightarrow> Inr condition')
      else Inr condition)"

text \<open>The body of the loop of \<open>process_conditions\<close>, for one condition string.\<close>

definition process_condition :: "string \<Rightarrow> string \<Rightarrow> py_error + string" where
  "process_condition level_type condition0 =
     (let c1 = lower condition0;
          c2 = replace_if_in ''nums'' ''num_touches'' c1;
          c3 = replace_if_in ''duration'' ''time_period_int'' c2;
          c4 = replace_if_in ''average'' ''avg'' c3;
          c5 = replace_if_in ''num_days_since'' ''days_since_last_tested'' c4;
          c6 = replace_if_in ''days_between'' ''num_days_bw_tests'' c5;
          c7 = fold (\<lambda>attribute c. replace attribute (level_type @ ''.'' @ attribute) c)
                 [''avg'', ''num_touches'', ''time_period_int'', ''days_since_last_tested'',
                  ''num_days_bw_tests'', ''status'']
                 c6;
          c8 = (if \<not> contains ''=='' c7 \<and> \<not> contains ''>='' c7 \<and> \<not> contains ''<='' c7
                   \<and> \<not> contains ''!='' c7 \<and> contains ''='' c7
                then replace ''='' ''=='' c7 else c7);
          c9 = replace_if_in (level_type @ ''.num_days_bw_tests.increasing'')
                 (''is_increasing('' @ level_type @ ''.num_days_bw_tests)'') c8;
          c10 = replace_if_in (level_type @ ''.num_days_bw_tests.decreasing'')
                  (''is_decreasing('' @ level_type @ ''.num_days_bw_tests)'') c9
      in case wrap_if_in level_type ''>='' c10 of
           Inl e \<Rightarrow> Inl e
         | Inr c11 \<Rightarrow>
        (case wrap_if_in level_type ''<='' c11 of
           Inl e \<Rightarrow> Inl e
         | Inr c12 \<Rightarrow>
        (case wrap_if_in level_type ''<'' c12 of
           Inl e \<Rightarrow> Inl e
         | Inr c13 \<Rightarrow>
        (case wrap_if_in level_type ''>'' c13 of
           Inl e \<Rightarrow> Inl e
         | Inr c14 \<Rightarrow>
             if contains (level_type @ ''.num_days_bw_tests == '') c14
             then Inl (ValueError ''Warning: '==' operator can not be used with the 'num_days_bw_tests' parameter'')
             else if contains (level_type @ ''.num_days_bw_tests != '') c14
             then Inl (ValueError ''Warning: '!=' operator can not be used with the 'num_days_bw_tests' parameter'')
             else if contains (level_type @ ''.avg =='') c14
             then Inl (ValueError ''Warning: Average values can not be compared using '=' operator.'')
             else if contains (level_type @ ''.avg !='') c14
             then Inl (ValueError ''Warning: Average values can not be compared using '!=' operator.'')
             else if contains (level_type @ ''.avg >='') c14
             then Inl (ValueError ''Warning: Average values can not be compared using '>=' operator. Use '>' instead.'')
             else if contains (level_type @ ''.avg <='') c14
             then Inl (ValueError ''Warning: Average values can not be compared using '<=' operator. Use '<' instead.'')
             else Inr c14))))"

fun process_conditions :: "string list \<Rightarrow> string \<Rightarrow> py_error + string list" where
  "process_conditions [] level_type = Inr []"
| "process_conditions (condition # conditions) level_type =
     (case process_condition level_type condition of
        Inl e \<Rightarrow> Inl e
      | Inr c \<Rightarrow>
          (case process_conditions conditions level_type of
             Inl e \<Rightarrow> Inl e
           | Inr cs \<Rightarrow> Inr (c # cs)))"

subsection \<open>The filter\<close>

text \<open>
  \<open>eval(condition)\<close> is Python's evaluator, which is not part of this program: it is the
  parameter \<open>ev\<close>, which takes the name the level is bound to (\<open>support\<close> or
  \<open>resistance\<close>), the processed condition string and the level, and gives the truth
  value of the result or the exception raised.

  The \<open>while\<close> loop pops the conditions from the end of the list and stops at the first
  one that is not satisfied; \<open>eval_popped\<close> takes them in that order.
\<close>

type_synonym evaluator = "string \<Rightarrow> string \<Rightarrow> support \<Rightarrow> py_error + bool"

fun eval_popped :: "(string \<Rightarrow> support \<Rightarrow> py_error + bool) \<Rightarrow> string list \<Rightarrow> support \<Rightarrow> py_error + bool" where
  "eval_popped ev [] level = Inr True"
| "eval_popped ev (condition # conditions) level =
     (case ev condition level of
        Inl e \<Rightarrow> Inl e
      | Inr b \<Rightarrow> if b then eval_popped ev conditions level else Inr False)"

fun filter_loop ::
  "(string \<Rightarrow> support \<Rightarrow> py_error + bool) \<Rightarrow> string list \<Rightarrow> bool \<Rightarrow> bool \<Rightarrow>
   support list \<Rightarrow> py_error + support list" where
  "filter_loop ev conditions_list breached ignore_is_breach [] = Inr []"
| "filter_loop ev conditions_list breached ignore_is_breach (level # levels) =
     (if \<not> ignore_is_breach \<and> is_breached level \<noteq> breached
      then filter_loop ev conditions_list breached ignore_is_breach levels
      else (case eval_popped ev (rev conditions_list) level of
              Inl e \<Rightarrow> Inl e
            | Inr ok \<Rightarrow>
                (case filter_loop ev conditions_list breached ignore_is_breach levels of
                   Inl e \<Rightarrow> Inl e
                 | Inr filtered \<Rightarrow> Inr (if ok then level # filtered else filtered))))"

text \<open>
  \<open>filter_supports\<close> and \<open>filter_resistances\<close>; the keyword arguments \<open>is_breached\<close>
  and \<open>ignore_is_breach\<close> both default to \<open>False\<close>.
\<close>

definition filter_supports ::
  "evaluator \<Rightarrow> support list \<Rightarrow> string list \<Rightarrow> bool \<Rightarrow> bool \<Rightarrow> py_error + support list" where
  "filter_supports ev levels args breached ignore_is_breach =
     (case process_conditions args ''support'' of
        Inl e \<Rightarrow> Inl e
      | Inr conditions_list \<Rightarrow>
          filter_loop (ev ''support'') conditions_list breached ignore_is_breach levels)"

definition filter_resistances ::
  "evaluator \<Rightarrow> support list \<Rightarrow> string list \<Rightarrow> bool \<Rightarrow> bool \<Rightarrow> py_error + support list" where
  "filter_resistances ev levels args breached ignore_is_breach =
     (case process_conditions args ''resistance'' of
        Inl e \<Rightarrow> Inl e
      | Inr conditions_list \<Rightarrow>
          filter_loop (ev ''resistance'') conditions_list breached ignore_is_breach levels)"

section \<open>Stock aggregation\<close>

text \<open>
  \<open>sorted(levels, key=lambda x: x.avg)[-1]\<close>, taken only when the argument is neither
  \<open>None\<close> nor empty. Python's \<open>sorted\<close> is stable, as \<open>sort_key\<close> is.
\<close>

definition final_level :: "support list option \<Rightarrow> support option" where
  "final_level levels =
     (case levels of
        None \<Rightarrow> None
      | Some [] \<Rightarrow> None
      | Some (x # xs) \<Rightarrow> Some (last (sort_key avg (x # xs))))"

definition Stock_init :: "string \<Rightarrow> support list option \<Rightarrow> support list option \<Rightarrow> stock" where
  "Stock_init name sups ress =
     (let fs = final_level sups; fr = final_level ress
      in \<lparr> stock_stock_name = name,
           supports = (case sups of None \<Rightarrow> [] | Some xs \<Rightarrow> xs),
           resistances = (case ress of None \<Rightarrow> [] | Some xs \<Rightarrow> xs),
           final_support = fs,
           final_resistance = fr,
           is_range_bound = (fs \<noteq> None \<and> fr \<noteq> None),
           range_width = (case (fs, fr) of
                            (Some s, Some r) \<Rightarrow> Some (avg r - avg s)
                          | _ \<Rightarrow> None) \<rparr>)"

text \<open>
  The element of a list with the highest average, the later one among equals: everything
  before it is at most as high, everything after it is strictly lower.
\<close>

definition highest_avg_last :: "support list \<Rightarrow> support \<Rightarrow> bool" where
  "highest_avg_last xs s \<longleftrightarrow>
     (\<exists>i < length xs. xs ! i = s \<and>
        (\<forall>j < length xs. avg (xs ! j) \<le> avg s) \<and>
        (\<forall>j < length xs. i < j \<longrightarrow> avg (xs ! j) < avg s))"

section \<open>Notions used in the statements\<close>

text \<open>
  A list of scored groups is well formed when every dictionary in it has pairwise
  different keys, as every Python dictionary has.
\<close>

definition wf_groups :: "index_groups_type \<Rightarrow> bool" where
  "wf_groups gs \<longleftrightarrow> list_all (\<lambda>g. distinct (map fst (snd g))) gs"

definition groups_wf :: "(price_type \<times> level_dict) list \<Rightarrow> bool" where
  "groups_wf tg \<longleftrightarrow> (\<forall>d \<in> snd ` set tg. distinct (map fst d))"

text \<open>A list is free of duplicates when no element is equal (\<open>==\<close>) to a later one.\<close>

fun no_duplicates :: "index_groups_type \<Rightarrow> bool" where
  "no_duplicates [] = True"
| "no_duplicates (g # gs) = (\<not> py_in g gs \<and> no_duplicates gs)"

text \<open>No two distinct groups of the list share 2 or more touch dates.\<close>

definition no_overlaps :: "index_groups_type \<Rightarrow> bool" where
  "no_overlaps gs \<longleftrightarrow>
     list_all (\<lambda>x. list_all (\<lambda>y. tuple_eq x y \<or> \<not> at_least_2_common (snd x) (snd y)) gs) gs"

text \<open>
  What a scored group stands for, whatever the order of insertion: its touch count and
  the mapping from dates to prices. Two mappings overlap when they have 2 or more dates
  in common.
\<close>

definition group_key :: "level_tuple \<Rightarrow> int \<times> (date_type \<rightharpoonup> price_type)" where
  "group_key g = (fst g, map_of (snd g))"

definition keys_overlap :: "(date_type \<rightharpoonup> price_type) \<Rightarrow> (date_type \<rightharpoonup> price_type) \<Rightarrow> bool" where
  "keys_overlap m1 m2 \<longleftrightarrow> 2 \<le> card (dom m1 \<inter> dom m2)"

definition overlap :: "level_tuple \<Rightarrow> level_tuple \<Rightarrow> bool" where
  "overlap g h \<longleftrightarrow> keys_overlap (snd (group_key g)) (snd (group_key h))"

text \<open>
  The greedy selection the redundancy removal is compared with: keep the first group,
  drop every later group that is distinct from it and shares 2 or more dates with it,
  and go on with what is left.
\<close>

function greedy_groups :: "index_groups_type \<Rightarrow> index_groups_type" where
  "greedy_groups [] = []"
| "greedy_groups (g # gs) =
     g # greedy_groups (filter (\<lambda>h. tuple_eq g h \<or> \<not> at_least_2_common (snd g) (snd h)) gs)"
  by pat_completeness auto
termination
  by (relation "measure length") (auto simp: less_Suc_eq_le)

text \<open>
  The invariant of the outer loop of \<open>remove_redundant_groups\<close> at position \<open>i\<close>: no
  group before position \<open>i\<close> overlaps a distinct group of the list, and every entry of
  \<open>remove_list\<close> overlaps a distinct group before position \<open>i\<close>.
\<close>

definition processed_ok :: "nat \<Rightarrow> index_groups_type \<Rightarrow> bool" where
  "processed_ok i gs \<longleftrightarrow>
     (\<forall>x \<in> set (take i gs). \<forall>y \<in> set gs. group_key x = group_key y \<or> \<not> overlap x y)"

definition removed_ok :: "nat \<Rightarrow> index_groups_type \<Rightarrow> index_groups_type \<Rightarrow> bool" where
  "removed_ok i rl gs \<longleftrightarrow>
     (\<forall>r \<in> set rl. \<exists>x \<in> set (take i gs). group_key x \<noteq> group_key r \<and> overlap x r)"

section \<open>Worked examples\<close>

text \<open>
  Three groups of 4 touches each, in descending (here: constant) order of touch count:
  the first and the second share the dates 3 and 4, the second and the third share the
  dates 5 and 6, the first and the third share none.
\<close>

definition chain_groups :: index_groups_type where
  "chain_groups =
     [(4, [(1, 100), (2, 101), (3, 100), (4, 101)]),
      (4, [(3, 100), (4, 101), (5, 102), (6, 101)]),
      (4, [(5, 102), (6, 101), (7, 103), (8, 102)])]"

text \<open>
  A level with touches on days 0, 10 and 25 (mean price 100.33), and a table of lows
  whose spread is 17, so that the tolerance is 3.
\<close>

definition sample_touches :: level_tuple where
  "sample_touches = (3, [(0, 100), (10, 102), (25, 99)])"

definition sample_table :: table where
  "sample_table =
     \<lparr> columns = (''date'', ''low''),
       rows = [(0, 100), (5, 98), (10, 102), (20, 111), (25, 99), (30, 95), (35, 112),
               (40, 101)] \<rparr>"

definition empty_table :: table where
  "empty_table = \<lparr> columns = (''date'', ''low''), rows = [] \<rparr>"

text \<open>A level record with a given average and breach flag.\<close>

definition sample_level :: "real \<Rightarrow> bool \<Rightarrow> support" where
  "sample_level a b =
     \<lparr> stock_name = ''HDFC'', num_touches = 3,
       data = [(0, a), (10, a), (25, a)], most_recents = (''Jul 28, 2021'', a),
       avg = a, status = 0, time_period_int = 25, days_since_last_tested = 40,
       num_days_bw_tests = [10, 15], is_breached = b, breach_data = [] \<rparr>"

definition sample_levels :: "support list" where
  "sample_levels =
     [sample_level 90 False,
      (sample_level 95 False)\<lparr>num_touches := 5\<rparr>,
      (sample_level 97 False)\<lparr>num_touches := 4, time_period_int := 300\<rparr>,
      (sample_level 99 True)\<lparr>num_touches := 6\<rparr>]"

text \<open>An evaluator that knows the two processed conditions of the example.\<close>

definition sample_eval :: evaluator where
  "sample_eval name condition level =
     (if condition = name @ ''.num_touches > 3'' then Inr (num_touches level > 3)
      else if condition = name @ ''.time_period_int < 200'' then Inr (time_period_int level < 200)
      else Inl (EvalError condition))"

section \<open>Properties of the clustering\<close>

lemma dict_eq_iff:
  assumes "distinct (map fst a)" "distinct (map fst b)"
  shows "dict_eq a b \<longleftrightarrow> map_of a = map_of b"
proof
  assume eq: "dict_eq a b"
  then have len: "length a = length b" and
    sub: "\<forall>(k, v) \<in> set a. map_of b k = Some v"
    by (auto simp: dict_eq_def list_all_iff)
  have "set a \<subseteq> set b" using sub by (auto dest: map_of_SomeD)
  moreover have "card (set a) = card (set b)"
    using assms len by (simp add: distinct_card distinct_map)
  ultimately have "set a = set b" by (simp add: card_subset_eq)
  then show "map_of a = map_of b" using assms by (simp add: map_of_inject_set)
next
  assume eq: "map_of a = map_of b"
  then have s: "set a = set b" using assms by (simp add: map_of_inject_set)
  have "length a = card (set a)" "length b = card (set b)"
    using assms by (simp_all add: distinct_card distinct_map)
  with s have "length a = length b" by simp
  moreover have "\<forall>(k, v) \<in> set a. map_of b k = Some v"
    using s assms by auto
  ultimately show "dict_eq a b" by (simp add: dict_eq_def list_all_iff)
qed

lemma common_loop_iff:
  "count < 2 \<Longrightarrow>
   common_loop count keys1 keys2 \<longleftrightarrow> 2 \<le> count + length (filter (\<lambda>k. k \<in> set keys2) keys1)"
  by (induction keys1 arbitrary: count) auto

lemma at_least_2_common_iff:
  assumes "distinct (map fst d1)"
  shows "at_least_2_common d1 d2 \<longleftrightarrow> keys_overlap (map_of d1) (map_of d2)"
proof -
  have "distinct (filter (\<lambda>k. k \<in> set (map fst d2)) (map fst d1))"
    using assms by simp
  then have "length (filter (\<lambda>k. k \<in> set (map fst d2)) (map fst d1))
        = card (set (filter (\<lambda>k. k \<in> set (map fst d2)) (map fst d1)))"
    by (simp only: distinct_card)
  also have "set (filter (\<lambda>k. k \<in> set (map fst d2)) (map fst d1))
        = dom (map_of d1) \<inter> dom (map_of d2)"
    by (auto simp: dom_map_of_conv_image_fst)
  finally show ?thesis
    by (simp add: at_least_2_common_def common_loop_iff keys_overlap_def)
qed

lemma keys_overlap_sym: "keys_overlap m1 m2 = keys_overlap m2 m1"
  by (simp add: keys_overlap_def Int_commute)

lemma tuple_eq_iff:
  "distinct (map fst (snd g)) \<Longrightarrow> distinct (map fst (snd h)) \<Longrightarrow>
   tuple_eq g h \<longleftrightarrow> group_key g = group_key h"
  by (simp add: tuple_eq_def group_key_def dict_eq_iff)

lemma overlap_iff:
  "distinct (map fst (snd g)) \<Longrightarrow> at_least_2_common (snd g) (snd h) \<longleftrightarrow> overlap g h"
  by (simp add: overlap_def group_key_def at_least_2_common_iff)

lemma overlap_sym: "overlap g h = overlap h g"
  by (simp add: overlap_def keys_overlap_sym)

lemma overlap_cong: "group_key g = group_key g' \<Longrightarrow> group_key h = group_key h' \<Longrightarrow> overlap g h = overlap g' h'"
  by (simp add: overlap_def)

lemma wf_groups_iff: "wf_groups gs \<longleftrightarrow> (\<forall>g \<in> set gs. distinct (map fst (snd g)))"
  by (simp add: wf_groups_def list_all_iff)

lemma py_in_iff:
  "distinct (map fst (snd x)) \<Longrightarrow> wf_groups xs \<Longrightarrow> py_in x xs \<longleftrightarrow> group_key x \<in> group_key ` set xs"
proof -
  assume wx: "distinct (map fst (snd x))" and wxs: "wf_groups xs"
  have "\<And>y. y \<in> set xs \<Longrightarrow> tuple_eq y x \<longleftrightarrow> group_key y = group_key x"
    using wx wxs by (simp add: wf_groups_iff tuple_eq_iff)
  then have "py_in x xs \<longleftrightarrow> (\<exists>y \<in> set xs. group_key y = group_key x)"
    by (simp add: py_in_def list_ex_iff)
  also have "\<dots> \<longleftrightarrow> group_key x \<in> group_key ` set xs" by (simp only: image_iff) metis
  finally show ?thesis .
qed

lemma set_list_remove: "set (list_remove x ys) \<subseteq> set ys"
  by (induction ys) auto

lemma set_apply_removals: "set (apply_removals rs gs) \<subseteq> set gs"
proof (induction rs arbitrary: gs)
  case Nil
  then show ?case by simp
next
  case (Cons r rs)
  have "set (apply_removals rs (if py_in r gs then list_remove r gs else gs))
        \<subseteq> set (if py_in r gs then list_remove r gs else gs)"
    by (rule Cons.IH)
  also have "\<dots> \<subseteq> set gs" using set_list_remove by simp
  finally show ?case by simp
qed

lemma wf_groups_subset: "wf_groups gs \<Longrightarrow> set hs \<subseteq> set gs \<Longrightarrow> wf_groups hs"
  by (auto simp: wf_groups_iff)

text \<open>Removing one entry: the groups outside the entry's class stay.\<close>

lemma filter_list_remove:
  assumes "distinct (map fst (snd x))" "wf_groups ys" "\<not> P (group_key x)"
  shows "filter (\<lambda>y. P (group_key y)) (list_remove x ys) = filter (\<lambda>y. P (group_key y)) ys"
  using assms(2)
proof (induction ys)
  case Nil
  then show ?case by simp
next
  case (Cons y ys)
  then have wy: "distinct (map fst (snd y))" and wys: "wf_groups ys"
    by (simp_all add: wf_groups_def)
  show ?case
  proof (cases "tuple_eq y x")
    case True
    then have "group_key y = group_key x" using wy assms(1) by (simp add: tuple_eq_iff)
    with assms(3) True show ?thesis by simp
  next
    case False
    with Cons.IH [OF wys] show ?thesis by simp
  qed
qed

lemma count_list_remove:
  assumes "distinct (map fst (snd x))" "wf_groups ys"
  shows "length (filter (\<lambda>y. group_key y = group_key x) (list_remove x ys))
         = length (filter (\<lambda>y. group_key y = group_key x) ys) - 1"
  using assms(2)
proof (induction ys)
  case Nil
  then show ?case by simp
next
  case (Cons y ys)
  then have wy: "distinct (map fst (snd y))" and wys: "wf_groups ys"
    by (simp_all add: wf_groups_def)
  show ?case
  proof (cases "tuple_eq y x")
    case True
    then have "group_key y = group_key x" using wy assms(1) by (simp add: tuple_eq_iff)
    with True show ?thesis by simp
  next
    case False
    then have ne: "group_key y \<noteq> group_key x" using wy assms(1) by (simp add: tuple_eq_iff)
    with False Cons.IH [OF wys] show ?thesis by simp
  qed
qed

lemma filter_apply_removals:
  assumes "wf_groups rs" "wf_groups gs" "\<forall>r \<in> set rs. \<not> P (group_key r)"
  shows "filter (\<lambda>y. P (group_key y)) (apply_removals rs gs) = filter (\<lambda>y. P (group_key y)) gs"
  using assms
proof (induction rs arbitrary: gs)
  case Nil
  then show ?case by simp
next
  case (Cons r rs)
  let ?gs1 = "if py_in r gs then list_remove r gs else gs"
  from Cons.prems have wr: "distinct (map fst (snd r))" and wrs: "wf_groups rs"
    and nP: "\<not> P (group_key r)" and rest: "\<forall>r \<in> set rs. \<not> P (group_key r)"
    by (simp_all add: wf_groups_def)
  have w1: "wf_groups ?gs1"
    using Cons.prems(2) set_list_remove [of r gs] by (auto intro: wf_groups_subset)
  have "filter (\<lambda>y. P (group_key y)) (apply_removals rs ?gs1) = filter (\<lambda>y. P (group_key y)) ?gs1"
    by (rule Cons.IH [OF wrs w1 rest])
  also have "\<dots> = filter (\<lambda>y. P (group_key y)) gs"
    using filter_list_remove [OF wr Cons.prems(2), of P] nP by simp
  finally show ?case by simp
qed

lemma count_apply_removals:
  assumes "wf_groups rs" "wf_groups gs"
  shows "length (filter (\<lambda>y. group_key y = k) (apply_removals rs gs))
         = length (filter (\<lambda>y. group_key y = k) gs) - length (filter (\<lambda>y. group_key y = k) rs)"
  using assms
proof (induction rs arbitrary: gs)
  case Nil
  then show ?case by simp
next
  case (Cons r rs)
  let ?gs1 = "if py_in r gs then list_remove r gs else gs"
  from Cons.prems have wr: "distinct (map fst (snd r))" and wrs: "wf_groups rs"
    by (simp_all add: wf_groups_def)
  have w1: "wf_groups ?gs1"
    using Cons.prems(2) set_list_remove [of r gs] by (auto intro: wf_groups_subset)
  have step: "length (filter (\<lambda>y. group_key y = k) ?gs1)
        = length (filter (\<lambda>y. group_key y = k) gs) - (if group_key r = k then 1 else 0)"
  proof (cases "py_in r gs")
    case True
    show ?thesis
    proof (cases "group_key r = k")
      case True
      with \<open>py_in r gs\<close> count_list_remove [OF wr Cons.prems(2)] show ?thesis by auto
    next
      case False
      then have "filter (\<lambda>y. group_key y = k) (list_remove r gs) = filter (\<lambda>y. group_key y = k) gs"
        using filter_list_remove [OF wr Cons.prems(2), of "\<lambda>k'. k' = k"] by simp
      with \<open>py_in r gs\<close> False show ?thesis by simp
    qed
  next
    case False
    then have "group_key r \<notin> group_key ` set gs"
      using py_in_iff [OF wr Cons.prems(2)] by simp
    then have "\<forall>y \<in> set gs. group_key y \<noteq> group_key r" by (metis imageI)
    then have "group_key r = k \<Longrightarrow> filter (\<lambda>y. group_key y = k) gs = []"
      by (simp add: filter_empty_conv)
    with False show ?thesis by auto
  qed
  have "length (filter (\<lambda>y. group_key y = k) (apply_removals rs ?gs1))
        = length (filter (\<lambda>y. group_key y = k) ?gs1) - length (filter (\<lambda>y. group_key y = k) rs)"
    by (rule Cons.IH [OF wrs w1])
  with step show ?case by auto
qed

lemma apply_removals_append:
  "apply_removals (rs @ rs') gs = apply_removals rs' (apply_removals rs gs)"
  by (induction rs arbitrary: gs) simp_all

lemma apply_removals_absent:
  "\<forall>r \<in> set rs. \<not> py_in r gs \<Longrightarrow> apply_removals rs gs = gs"
  by (induction rs) simp_all

text \<open>Removing every group of a class-closed selection leaves exactly the others.\<close>

lemma apply_removals_filter:
  assumes "wf_groups gs"
  shows "apply_removals (filter (\<lambda>y. Q (group_key y)) gs) gs = filter (\<lambda>y. \<not> Q (group_key y)) gs"
proof -
  let ?rs = "filter (\<lambda>y. Q (group_key y)) gs"
  let ?out = "apply_removals ?rs gs"
  have wrs: "wf_groups ?rs" using assms by (auto intro: wf_groups_subset)
  have keep: "filter (\<lambda>y. \<not> Q (group_key y)) ?out = filter (\<lambda>y. \<not> Q (group_key y)) gs"
    using filter_apply_removals [OF wrs assms, of "\<lambda>k. \<not> Q k"] by simp
  have gone: "\<forall>y \<in> set ?out. \<not> Q (group_key y)"
  proof
    fix y assume y: "y \<in> set ?out"
    show "\<not> Q (group_key y)"
    proof
      assume q: "Q (group_key y)"
      have "filter (\<lambda>z. group_key z = group_key y) ?rs = filter (\<lambda>z. group_key z = group_key y) gs"
        using q by (auto intro: filter_cong)
      then have "length (filter (\<lambda>z. group_key z = group_key y) ?out) = 0"
        using count_apply_removals [OF wrs assms, of "group_key y"] by simp
      then have "filter (\<lambda>z. group_key z = group_key y) ?out = []" by simp
      then have "\<forall>z \<in> set ?out. group_key z \<noteq> group_key y"
        by (simp only: filter_empty_conv)
      from bspec [OF this y] show False by simp
    qed
  qed
  then have "filter (\<lambda>y. \<not> Q (group_key y)) ?out = ?out" by (rule filter_True)
  then have "?out = filter (\<lambda>y. \<not> Q (group_key y)) ?out" by (rule sym)
  also note keep
  finally show ?thesis .
qed

lemma take_drop_filter:
  assumes "\<forall>x \<in> set (take n xs). P x" "n \<le> length xs"
  shows "take n (filter P xs) = take n xs" "drop n (filter P xs) = filter P (drop n xs)"
proof -
  have "filter P xs = filter P (take n xs @ drop n xs)" by simp
  also have "\<dots> = filter P (take n xs) @ filter P (drop n xs)" by (simp only: filter_append)
  also have "filter P (take n xs) = take n xs" using assms(1) by (rule filter_True)
  finally have eq: "filter P xs = take n xs @ filter P (drop n xs)" .
  from eq have "take n (filter P xs) = take n (take n xs @ filter P (drop n xs))"
    by (rule arg_cong)
  also have "\<dots> = take n xs" using assms(2) by simp
  finally show "take n (filter P xs) = take n xs" .
  from eq have "drop n (filter P xs) = drop n (take n xs @ filter P (drop n xs))"
    by (rule arg_cong)
  also have "\<dots> = filter P (drop n xs)" using assms(2) by simp
  finally show "drop n (filter P xs) = filter P (drop n xs)" .
qed

lemma rrg_loop_greedy:
  "wf_groups gs \<Longrightarrow> wf_groups rl \<Longrightarrow> i \<le> length gs \<Longrightarrow>
   processed_ok i gs \<Longrightarrow> removed_ok i rl gs \<Longrightarrow>
   rrg_loop i rl gs = take i gs @ greedy_groups (drop i gs)"
proof (induction i rl gs rule: rrg_loop.induct)
  case (1 i rl gs)
  note wgs = \<open>wf_groups gs\<close> and wrl = \<open>wf_groups rl\<close>
  show ?case
  proof (cases "i < length gs")
    case False
    with "1.prems"(3) have "i = length gs" by simp
    then show ?thesis by (simp add: rrg_loop.simps [of "length gs" rl gs])
  next
    case True
    define cur where "cur = gs ! i"
    define Q where "Q k \<longleftrightarrow> k \<noteq> group_key cur \<and> keys_overlap (snd (group_key cur)) (snd k)" for k
    let ?new = "new_removals cur gs"
    let ?rl' = "rl @ ?new"
    let ?gs' = "apply_removals ?rl' gs"
    have cur_in: "cur \<in> set gs" using True by (simp add: cur_def)
    have wcur: "distinct (map fst (snd cur))" using wgs cur_in by (simp add: wf_groups_iff)
    have Q_iff: "\<And>h. h \<in> set gs \<Longrightarrow>
        (\<not> tuple_eq cur h \<and> at_least_2_common (snd cur) (snd h)) \<longleftrightarrow> Q (group_key h)"
    proof -
      fix h assume "h \<in> set gs"
      then have wh: "distinct (map fst (snd h))" using wgs by (simp add: wf_groups_iff)
      show "(\<not> tuple_eq cur h \<and> at_least_2_common (snd cur) (snd h)) \<longleftrightarrow> Q (group_key h)"
        using tuple_eq_iff [OF wcur wh] overlap_iff [OF wcur, of h]
        by (auto simp: Q_def overlap_def)
    qed
    have new_eq: "?new = filter (\<lambda>y. Q (group_key y)) gs"
      unfolding new_removals_def by (rule filter_cong [OF refl]) (rule Q_iff)
    have absent: "\<forall>r \<in> set rl. \<not> py_in r gs"
    proof
      fix r assume r: "r \<in> set rl"
      then have wr: "distinct (map fst (snd r))" using wrl by (simp add: wf_groups_iff)
      from r "1.prems"(5) obtain x where
        x: "x \<in> set (take i gs)" "group_key x \<noteq> group_key r" "overlap x r"
        unfolding removed_ok_def by blast
      show "\<not> py_in r gs"
      proof
        assume "py_in r gs"
        then obtain y where y: "y \<in> set gs" "group_key y = group_key r"
          using py_in_iff [OF wr wgs] by auto
        from x(1) y(1) "1.prems"(4) have "group_key x = group_key y \<or> \<not> overlap x y"
          unfolding processed_ok_def by blast
        moreover have "overlap x y = overlap x r" using y(2) by (rule overlap_cong [OF refl])
        ultimately show False using x y by simp
      qed
    qed
    have gs'_eq: "?gs' = filter (\<lambda>y. \<not> Q (group_key y)) gs"
    proof -
      have "?gs' = apply_removals ?new (apply_removals rl gs)"
        by (rule apply_removals_append)
      also have "apply_removals rl gs = gs" using absent by (rule apply_removals_absent)
      also have "apply_removals ?new gs = filter (\<lambda>y. \<not> Q (group_key y)) gs"
        unfolding new_eq using wgs by (rule apply_removals_filter)
      finally show ?thesis .
    qed
    have tk: "take (Suc i) gs = take i gs @ [cur]"
      using True by (simp add: take_Suc_conv_app_nth cur_def)
    have prefix_keep: "\<forall>x \<in> set (take (Suc i) gs). \<not> Q (group_key x)"
    proof
      fix x assume "x \<in> set (take (Suc i) gs)"
      then have "x \<in> set (take i gs) \<or> x = cur" by (auto simp: tk)
      then show "\<not> Q (group_key x)"
      proof
        assume "x \<in> set (take i gs)"
        with cur_in "1.prems"(4) have "group_key x = group_key cur \<or> \<not> overlap x cur"
          unfolding processed_ok_def by blast
        then show ?thesis using overlap_sym [of x cur] by (auto simp: Q_def overlap_def)
      next
        assume "x = cur"
        then show ?thesis by (simp add: Q_def)
      qed
    qed
    have le: "Suc i \<le> length gs" using True by simp
    have take': "take (Suc i) ?gs' = take (Suc i) gs"
      unfolding gs'_eq using prefix_keep le by (rule take_drop_filter(1))
    have drop': "drop (Suc i) ?gs' = filter (\<lambda>y. \<not> Q (group_key y)) (drop (Suc i) gs)"
      unfolding gs'_eq using prefix_keep le by (rule take_drop_filter(2))
    have sub: "set ?gs' \<subseteq> set gs" by (rule set_apply_removals)
    have w': "wf_groups ?gs'" using wgs sub by (rule wf_groups_subset)
    have wnew: "wf_groups ?new" using wgs by (auto simp: new_removals_def intro: wf_groups_subset)
    have wrl': "wf_groups ?rl'" using wrl wnew by (simp add: wf_groups_def)
    have len': "Suc i \<le> length ?gs'"
    proof -
      have "length (take (Suc i) ?gs') = Suc i" using take' le by simp
      then show ?thesis by simp
    qed
    have proc': "processed_ok (Suc i) ?gs'"
      unfolding processed_ok_def
    proof (intro ballI)
      fix x y assume x: "x \<in> set (take (Suc i) ?gs')" and y: "y \<in> set ?gs'"
      from x have "x \<in> set (take i gs) \<or> x = cur" by (auto simp: take' tk)
      then show "group_key x = group_key y \<or> \<not> overlap x y"
      proof
        assume "x \<in> set (take i gs)"
        with y sub "1.prems"(4) show ?thesis unfolding processed_ok_def by blast
      next
        assume xc: "x = cur"
        from y have "\<not> Q (group_key y)" by (simp add: gs'_eq)
        then show ?thesis using xc by (auto simp: Q_def overlap_def)
      qed
    qed
    have rem': "removed_ok (Suc i) ?rl' ?gs'"
      unfolding removed_ok_def
    proof
      fix r assume "r \<in> set ?rl'"
      then have "r \<in> set rl \<or> r \<in> set ?new" by auto
      then show "\<exists>x \<in> set (take (Suc i) ?gs'). group_key x \<noteq> group_key r \<and> overlap x r"
      proof
        assume "r \<in> set rl"
        with "1.prems"(5) obtain x where
          "x \<in> set (take i gs)" "group_key x \<noteq> group_key r" "overlap x r"
          unfolding removed_ok_def by blast
        then show ?thesis by (auto simp: take' tk)
      next
        assume "r \<in> set ?new"
        then have "Q (group_key r)" by (simp add: new_eq)
        then have "group_key cur \<noteq> group_key r \<and> overlap cur r"
          by (auto simp: Q_def overlap_def)
        then show ?thesis by (auto simp: take' tk)
      qed
    qed
    have IH: "rrg_loop (i + 1) ?rl' ?gs' = take (i + 1) ?gs' @ greedy_groups (drop (i + 1) ?gs')"
      using "1.IH" [OF True, folded cur_def] w' wrl' len' proc' rem' by simp
    have gfilter: "filter (\<lambda>h. tuple_eq cur h \<or> \<not> at_least_2_common (snd cur) (snd h)) (drop (Suc i) gs)
        = filter (\<lambda>y. \<not> Q (group_key y)) (drop (Suc i) gs)"
    proof (rule filter_cong [OF refl])
      fix h assume "h \<in> set (drop (Suc i) gs)"
      then have "h \<in> set gs" by (rule in_set_dropD)
      from Q_iff [OF this]
      show "(tuple_eq cur h \<or> \<not> at_least_2_common (snd cur) (snd h)) = (\<not> Q (group_key h))"
        by blast
    qed
    have "rrg_loop i rl gs = rrg_loop (i + 1) ?rl' ?gs'"
      using True by (subst rrg_loop.simps) (simp add: cur_def)
    also have "\<dots> = take (Suc i) gs @ greedy_groups (filter (\<lambda>y. \<not> Q (group_key y)) (drop (Suc i) gs))"
      using IH take' drop' by simp
    also have "\<dots> = take i gs @ greedy_groups (cur # drop (Suc i) gs)"
      by (simp add: tk gfilter)
    also have "cur # drop (Suc i) gs = drop i gs"
      unfolding cur_def using True by (rule Cons_nth_drop_Suc)
    finally show ?thesis .
  qed
qed

lemma remove_redundant_groups_greedy:
  "wf_groups gs \<Longrightarrow> remove_redundant_groups gs = greedy_groups gs"
  using rrg_loop_greedy [of gs "[]" 0]
  by (simp add: remove_redundant_groups_def processed_ok_def removed_ok_def wf_groups_def)

lemma no_overlaps_iff:
  "no_overlaps gs \<longleftrightarrow>
     (\<forall>x \<in> set gs. \<forall>y \<in> set gs. tuple_eq x y \<or> \<not> at_least_2_common (snd x) (snd y))"
  by (simp add: no_overlaps_def list_all_iff)

lemma set_greedy_groups: "set (greedy_groups gs) \<subseteq> set gs"
proof (induction gs rule: greedy_groups.induct)
  case 1
  then show ?case by simp
next
  case (2 g gs)
  then show ?case by auto
qed

lemma greedy_groups_no_overlaps:
  "wf_groups gs \<Longrightarrow> no_overlaps (greedy_groups gs)"
proof (induction gs rule: greedy_groups.induct)
  case 1
  then show ?case by (simp add: no_overlaps_def)
next
  case (2 g gs)
  let ?P = "\<lambda>h. tuple_eq g h \<or> \<not> at_least_2_common (snd g) (snd h)"
  let ?fs = "filter ?P gs"
  from "2.prems" have wg: "distinct (map fst (snd g))" and wgs: "wf_groups gs"
    by (simp_all add: wf_groups_def)
  have wfs: "wf_groups ?fs" using wgs by (auto intro: wf_groups_subset)
  have IH: "no_overlaps (greedy_groups ?fs)" using "2.IH" wfs by simp
  have tail: "\<And>y. y \<in> set (greedy_groups ?fs) \<Longrightarrow> y \<in> set gs \<and> ?P y"
    using set_greedy_groups [of ?fs] by auto
  have gg: "tuple_eq g g" using wg by (simp add: tuple_eq_iff)
  have gy: "\<And>y. y \<in> set (greedy_groups ?fs) \<Longrightarrow>
      (tuple_eq g y \<or> \<not> at_least_2_common (snd g) (snd y)) \<and>
      (tuple_eq y g \<or> \<not> at_least_2_common (snd y) (snd g))"
  proof -
    fix y assume "y \<in> set (greedy_groups ?fs)"
    with tail have y: "y \<in> set gs" "?P y" by blast+
    then have wy: "distinct (map fst (snd y))" using wgs by (simp add: wf_groups_iff)
    show "(tuple_eq g y \<or> \<not> at_least_2_common (snd g) (snd y)) \<and>
      (tuple_eq y g \<or> \<not> at_least_2_common (snd y) (snd g))"
      using y(2) tuple_eq_iff [OF wg wy] tuple_eq_iff [OF wy wg]
        overlap_iff [OF wg, of y] overlap_iff [OF wy, of g] overlap_sym [of g y]
      by auto
  qed
  show ?case
    unfolding no_overlaps_iff
  proof (intro ballI)
    fix x y
    assume "x \<in> set (greedy_groups (g # gs))" and "y \<in> set (greedy_groups (g # gs))"
    then have x: "x = g \<or> x \<in> set (greedy_groups ?fs)"
      and y: "y = g \<or> y \<in> set (greedy_groups ?fs)" by simp_all
    show "tuple_eq x y \<or> \<not> at_least_2_common (snd x) (snd y)"
    proof (cases "x = g")
      case xg: True
      show ?thesis
      proof (cases "y = g")
        case True
        with xg gg show ?thesis by simp
      next
        case False
        with y gy [of y] xg show ?thesis by blast
      qed
    next
      case xn: False
      show ?thesis
      proof (cases "y = g")
        case True
        with x xn gy [of x] show ?thesis by blast
      next
        case False
        with x y xn IH [unfolded no_overlaps_iff] show ?thesis by blast
      qed
    qed
  qed
qed

lemma greedy_groups_fixed:
  "no_overlaps gs \<Longrightarrow> greedy_groups gs = gs"
proof (induction gs rule: greedy_groups.induct)
  case 1
  then show ?case by simp
next
  case (2 g gs)
  let ?P = "\<lambda>h. tuple_eq g h \<or> \<not> at_least_2_common (snd g) (snd h)"
  from "2.prems" have all: "\<forall>h \<in> set gs. ?P h" and rest: "no_overlaps gs"
    by (auto simp: no_overlaps_iff)
  from all have f: "filter ?P gs = gs" by (rule filter_True)
  with "2.IH" rest show ?case by simp
qed

lemma wf_greedy_groups: "wf_groups gs \<Longrightarrow> wf_groups (greedy_groups gs)"
  by (rule wf_groups_subset [OF _ set_greedy_groups])

lemma no_duplicates_iff:
  "wf_groups gs \<Longrightarrow> no_duplicates gs \<longleftrightarrow> distinct (map group_key gs)"
proof (induction gs)
  case Nil
  then show ?case by simp
next
  case (Cons g gs)
  then have wg: "distinct (map fst (snd g))" and wgs: "wf_groups gs"
    by (simp_all add: wf_groups_def)
  show ?case using Cons.IH [OF wgs] py_in_iff [OF wg wgs] by simp
qed

lemma greedy_groups_retained:
  "wf_groups gs \<Longrightarrow> distinct (map group_key gs) \<Longrightarrow> gs = pre @ x # post \<Longrightarrow>
   x \<in> set (greedy_groups gs) \<longleftrightarrow>
     (\<forall>y \<in> set pre. y \<in> set (greedy_groups gs) \<longrightarrow> \<not> at_least_2_common (snd y) (snd x))"
proof (induction gs arbitrary: pre post rule: greedy_groups.induct)
  case 1
  then show ?case by simp
next
  case (2 g gs)
  let ?P = "\<lambda>h. tuple_eq g h \<or> \<not> at_least_2_common (snd g) (snd h)"
  let ?fs = "filter ?P gs"
  from "2.prems"(1) have wg: "distinct (map fst (snd g))" and wgs: "wf_groups gs"
    by (simp_all add: wf_groups_def)
  from "2.prems"(2) have gnew: "group_key g \<notin> group_key ` set gs" and dgs: "distinct (map group_key gs)"
    by simp_all
  have wfs: "wf_groups ?fs" using wgs by (auto intro: wf_groups_subset)
  have dfs: "distinct (map group_key ?fs)" using dgs by (rule distinct_map_filter)
  have neq: "\<And>h. h \<in> set gs \<Longrightarrow> h \<noteq> g \<and> \<not> tuple_eq g h"
  proof -
    fix h assume h: "h \<in> set gs"
    then have wh: "distinct (map fst (snd h))" using wgs by (simp add: wf_groups_iff)
    from h gnew have "group_key g \<noteq> group_key h" by (metis imageI)
    then show "h \<noteq> g \<and> \<not> tuple_eq g h" using tuple_eq_iff [OF wg wh] by auto
  qed
  show ?case
  proof (cases pre)
    case Nil
    with "2.prems"(3) show ?thesis by simp
  next
    case (Cons p pre')
    with "2.prems"(3) have p: "p = g" and gs: "gs = pre' @ x # post" by simp_all
    have xin: "x \<in> set gs" by (subst gs) simp
    have pre_in: "set pre' \<subseteq> set gs" by (subst gs) auto
    show ?thesis
    proof (cases "at_least_2_common (snd g) (snd x)")
      case True
      then have "x \<notin> set ?fs" using neq [OF xin] by simp
      then have "x \<notin> set (greedy_groups ?fs)" using set_greedy_groups [of ?fs] by blast
      then have "x \<notin> set (greedy_groups (g # gs))" using neq [OF xin] by simp
      moreover have "g \<in> set pre" "g \<in> set (greedy_groups (g # gs))" by (simp_all add: Cons p)
      ultimately show ?thesis using True by blast
    next
      case False
      have fs: "?fs = filter ?P pre' @ x # filter ?P post" using False by (subst gs) simp
      have IH: "x \<in> set (greedy_groups ?fs) \<longleftrightarrow>
          (\<forall>y \<in> set (filter ?P pre'). y \<in> set (greedy_groups ?fs) \<longrightarrow> \<not> at_least_2_common (snd y) (snd x))"
        using wfs dfs fs by (rule "2.IH")
      have mem: "\<And>y. y \<in> set gs \<Longrightarrow> y \<in> set (greedy_groups (g # gs)) \<longleftrightarrow> y \<in> set (greedy_groups ?fs)"
        using neq by simp
      have keep: "\<And>y. y \<in> set pre' \<Longrightarrow> y \<in> set (greedy_groups ?fs) \<Longrightarrow> y \<in> set (filter ?P pre')"
      proof -
        fix y assume y: "y \<in> set pre'" "y \<in> set (greedy_groups ?fs)"
        from y(2) set_greedy_groups [of ?fs] have "y \<in> set ?fs" by blast
        with y(1) show "y \<in> set (filter ?P pre')" by simp
      qed
      have "(\<forall>y \<in> set pre. y \<in> set (greedy_groups (g # gs)) \<longrightarrow> \<not> at_least_2_common (snd y) (snd x))
          \<longleftrightarrow> (\<forall>y \<in> set pre'. y \<in> set (greedy_groups ?fs) \<longrightarrow> \<not> at_least_2_common (snd y) (snd x))"
        using False mem pre_in by (auto simp: Cons p)
      also have "\<dots> \<longleftrightarrow> (\<forall>y \<in> set (filter ?P pre'). y \<in> set (greedy_groups ?fs) \<longrightarrow> \<not> at_least_2_common (snd y) (snd x))"
      proof -
        define F where "F = set (filter ?P pre')"
        define G where "G = set (greedy_groups ?fs)"
        have k: "\<And>y. y \<in> set pre' \<Longrightarrow> y \<in> G \<Longrightarrow> y \<in> F"
          using keep by (simp add: F_def G_def)
        have sub: "F \<subseteq> set pre'" by (simp add: F_def)
        have "(\<forall>y \<in> set pre'. y \<in> G \<longrightarrow> \<not> at_least_2_common (snd y) (snd x))
            \<longleftrightarrow> (\<forall>y \<in> F. y \<in> G \<longrightarrow> \<not> at_least_2_common (snd y) (snd x))"
          using k sub by blast
        then show ?thesis by (simp only: F_def G_def)
      qed
      also have "\<dots> \<longleftrightarrow> x \<in> set (greedy_groups ?fs)" using IH by simp
      also have "\<dots> \<longleftrightarrow> x \<in> set (greedy_groups (g # gs))" using mem [OF xin] by simp
      finally show ?thesis by simp
    qed
  qed
qed

lemma set_rrg_loop: "set (rrg_loop i rl gs) \<subseteq> set gs"
proof (induction i rl gs rule: rrg_loop.induct)
  case (1 i rl gs)
  show ?case
  proof (cases "i < length gs")
    case True
    let ?rl' = "rl @ new_removals (gs ! i) gs"
    have "rrg_loop i rl gs = rrg_loop (i + 1) ?rl' (apply_removals ?rl' gs)"
      using True by (subst rrg_loop.simps) simp
    also have "set \<dots> \<subseteq> set (apply_removals ?rl' gs)" using True by (rule "1.IH")
    also have "\<dots> \<subseteq> set gs" by (rule set_apply_removals)
    finally show ?thesis .
  next
    case False
    then show ?thesis by (subst rrg_loop.simps) simp
  qed
qed

lemma set_remove_redundant_groups: "set (remove_redundant_groups gs) \<subseteq> set gs"
  unfolding remove_redundant_groups_def by (rule set_rrg_loop)

lemma set_remove_duplicates_fold:
  "set (fold (\<lambda>v u. if \<not> py_in v u then u @ [v] else u) xs acc) \<subseteq> set acc \<union> set xs"
proof (induction xs arbitrary: acc)
  case Nil
  then show ?case by simp
next
  case (Cons x xs)
  have "set (fold (\<lambda>v u. if \<not> py_in v u then u @ [v] else u) xs
               (if \<not> py_in x acc then acc @ [x] else acc))
        \<subseteq> set (if \<not> py_in x acc then acc @ [x] else acc) \<union> set xs"
    by (rule Cons.IH)
  then show ?case by auto
qed

lemma set_remove_duplicates: "set (remove_duplicates xs) \<subseteq> set xs"
  using set_remove_duplicates_fold [of xs "[]"] by (simp add: remove_duplicates_def)

lemma set_manipulate_groups:
  "g \<in> set (manipulate_groups tg) \<Longrightarrow>
   snd g \<in> snd ` set tg \<and> 3 \<le> fst g \<and> fst g = int (length (snd g))"
proof -
  assume "g \<in> set (manipulate_groups tg)"
  then have "g \<in> set (remove_duplicates (map (\<lambda>value. (int (length value), value))
                 (filter (\<lambda>value. length value \<ge> 3) (map snd tg))))"
    by (simp add: manipulate_groups_def Let_def)
  then have "g \<in> set (map (\<lambda>value. (int (length value), value))
                 (filter (\<lambda>value. length value \<ge> 3) (map snd tg)))"
    using set_remove_duplicates by blast
  then show ?thesis by force
qed

lemma keys_dict_set: "set (map fst (dict_set d k v)) = insert k (set (map fst d))"
proof (induction d)
  case Nil
  then show ?case by simp
next
  case (Cons a d)
  obtain k' v' where a: "a = (k', v')" by (cases a)
  show ?case using Cons.IH by (cases "k' = k") (auto simp: a)
qed

lemma distinct_dict_set: "distinct (map fst d) \<Longrightarrow> distinct (map fst (dict_set d k v))"
proof (induction d)
  case Nil
  then show ?case by simp
next
  case (Cons a d)
  obtain k' v' where a: "a = (k', v')" by (cases a)
  show ?case
  proof (cases "k' = k")
    case True
    with Cons.prems a show ?thesis by simp
  next
    case False
    have "k' \<notin> set (map fst (dict_set d k v))"
      using Cons.prems a False by (simp only: keys_dict_set) auto
    with Cons a False show ?thesis by simp
  qed
qed

lemma groups_wf_init:
  "groups_wf tg \<Longrightarrow> groups_wf (fold (\<lambda>value tg. dict_set tg value []) vs tg)"
proof (induction vs arbitrary: tg)
  case Nil
  then show ?case by simp
next
  case (Cons v vs)
  have "\<And>tg. groups_wf tg \<Longrightarrow> groups_wf (dict_set tg v [])"
  proof -
    fix tg :: "(price_type \<times> level_dict) list"
    show "groups_wf tg \<Longrightarrow> groups_wf (dict_set tg v [])"
    proof (induction tg)
      case Nil
      then show ?case by (simp add: groups_wf_def)
    next
      case (Cons a tg)
      obtain p d where a: "a = (p, d)" by (cases a)
      from Cons.prems have "groups_wf tg" by (simp add: groups_wf_def)
      then have "groups_wf (dict_set tg v [])" by (rule Cons.IH)
      with Cons.prems show ?case by (cases "p = v") (simp_all add: a groups_wf_def)
    qed
  qed
  with Cons show ?case by simp
qed

lemma groups_wf_modify:
  "groups_wf tg \<Longrightarrow> groups_wf (dict_modify tg p (\<lambda>d. dict_set d k v))"
  by (auto simp: groups_wf_def dict_modify_def distinct_dict_set split: if_splits)

lemma groups_wf_inner:
  "groups_wf tg \<Longrightarrow>
   groups_wf (fold (\<lambda>(key2, value2) tg'.
                 if f value1 value2 then dict_modify tg' value1 (\<lambda>d. dict_set d key2 value2) else tg')
               items tg)"
proof (induction items arbitrary: tg)
  case Nil
  then show ?case by simp
next
  case (Cons a items)
  obtain k v where a: "a = (k, v)" by (cases a)
  show ?case using Cons.prems by (simp add: a Cons.IH groups_wf_modify)
qed

lemma groups_wf_outer:
  "groups_wf tg \<Longrightarrow>
   groups_wf (fold (\<lambda>(key1, value1) tg.
                 fold (\<lambda>(key2, value2) tg'.
                         if f value1 value2 then dict_modify tg' value1 (\<lambda>d. dict_set d key2 value2) else tg')
                      items tg)
               items' tg)"
proof (induction items' arbitrary: tg)
  case Nil
  then show ?case by simp
next
  case (Cons a items')
  obtain k v where a: "a = (k, v)" by (cases a)
  show ?case using Cons.prems by (simp add: a Cons.IH groups_wf_inner)
qed

lemma groups_wf_create: "groups_wf (create_tolerance_group levels f)"
  unfolding create_tolerance_group_def Let_def
  by (rule groups_wf_outer, rule groups_wf_init) (simp add: groups_wf_def)

lemma tuple_eq_refl: "distinct (map fst (snd g)) \<Longrightarrow> tuple_eq g g"
  by (simp add: tuple_eq_iff)

text \<open>The pipeline returns a list for every price column that is not empty.\<close>

lemma process_groups_returns:
  "series \<noteq> [] \<Longrightarrow> \<exists>out. process_groups series possible_levels_values = Inr out"
  by (cases series)
    (simp_all add: process_groups_def create_tolerance_function_def calculate_tolerance_def
      series_range_def)

text \<open>
  C1 (as amended). For every duplicate-free list of scored groups,
  \<open>remove_redundant_groups\<close> returns a list in which no two distinct remaining groups
  share 2 or more touch dates, and the group at position \<open>j\<close> is retained exactly when
  it shares 2 or more touch dates with no retained group at an earlier position. So of
  two distinct input groups that share 2 or more touch dates the later one is discarded
  whenever the earlier one is retained, and the first group is always retained. The
  list need not be sorted.
\<close>

theorem remove_redundant_groups_greedy_choice:
  assumes "wf_groups gs" and "no_duplicates gs"
  shows "(\<forall>x \<in> set (remove_redundant_groups gs). \<forall>y \<in> set (remove_redundant_groups gs).
            \<not> tuple_eq x y \<longrightarrow> \<not> at_least_2_common (snd x) (snd y)) \<and>
         (\<forall>j < length gs.
            gs ! j \<in> set (remove_redundant_groups gs) \<longleftrightarrow>
              (\<forall>i < j. gs ! i \<in> set (remove_redundant_groups gs) \<longrightarrow>
                        \<not> at_least_2_common (snd (gs ! i)) (snd (gs ! j))))"
proof (intro conjI allI impI)
  have "no_overlaps (remove_redundant_groups gs)"
    using assms(1) by (simp add: remove_redundant_groups_greedy greedy_groups_no_overlaps)
  then show "\<forall>x \<in> set (remove_redundant_groups gs). \<forall>y \<in> set (remove_redundant_groups gs).
            \<not> tuple_eq x y \<longrightarrow> \<not> at_least_2_common (snd x) (snd y)"
    unfolding no_overlaps_iff by blast
next
  fix j assume j: "j < length gs"
  have d: "distinct (map group_key gs)" using assms by (simp add: no_duplicates_iff)
  have split: "gs = take j gs @ gs ! j # drop (Suc j) gs"
    using j by (simp add: id_take_nth_drop)
  have pre: "set (take j gs) = {gs ! i | i. i < j}"
  proof -
    have "set (take j gs) = {take j gs ! i | i. i < length (take j gs)}"
      by (rule set_conv_nth)
    also have "\<dots> = {gs ! i | i. i < j}"
    proof (rule Collect_cong)
      fix x
      have len: "length (take j gs) = j" using j by simp
      show "(\<exists>i. x = take j gs ! i \<and> i < length (take j gs)) \<longleftrightarrow> (\<exists>i. x = gs ! i \<and> i < j)"
        unfolding len by (metis nth_take)
    qed
    finally show ?thesis .
  qed
  have "gs ! j \<in> set (greedy_groups gs) \<longleftrightarrow>
      (\<forall>y \<in> set (take j gs). y \<in> set (greedy_groups gs) \<longrightarrow>
         \<not> at_least_2_common (snd y) (snd (gs ! j)))"
    using assms(1) d split by (rule greedy_groups_retained)
  also have "\<dots> \<longleftrightarrow> (\<forall>i < j. gs ! i \<in> set (greedy_groups gs) \<longrightarrow>
                        \<not> at_least_2_common (snd (gs ! i)) (snd (gs ! j)))"
    unfolding pre by blast
  finally show "gs ! j \<in> set (remove_redundant_groups gs) \<longleftrightarrow>
              (\<forall>i < j. gs ! i \<in> set (remove_redundant_groups gs) \<longrightarrow>
                        \<not> at_least_2_common (snd (gs ! i)) (snd (gs ! j)))"
    using assms(1) by (simp add: remove_redundant_groups_greedy)
qed

text \<open>
  The theorem on a chain of three groups of 4 touches each: the first shares two dates
  with the second, the second shares two dates with the third, the first and the third
  share none.
\<close>

theorem remove_redundant_groups_greedy_choice_witness:
  "wf_groups chain_groups \<and> no_duplicates chain_groups \<and>
   chain_groups ! 0 \<in> set (remove_redundant_groups chain_groups) \<and>
   chain_groups ! 1 \<notin> set (remove_redundant_groups chain_groups) \<and>
   chain_groups ! 2 \<in> set (remove_redundant_groups chain_groups)"
proof -
  have w: "wf_groups chain_groups" by code_simp
  have n: "no_duplicates chain_groups" by code_simp
  have l: "length chain_groups = 3" by code_simp
  have a01: "at_least_2_common (snd (chain_groups ! 0)) (snd (chain_groups ! 1))" by code_simp
  have a02: "\<not> at_least_2_common (snd (chain_groups ! 0)) (snd (chain_groups ! 2))" by code_simp
  from remove_redundant_groups_greedy_choice [OF w n] have
    r: "\<And>j. j < 3 \<Longrightarrow> chain_groups ! j \<in> set (remove_redundant_groups chain_groups) \<longleftrightarrow>
              (\<forall>i < j. chain_groups ! i \<in> set (remove_redundant_groups chain_groups) \<longrightarrow>
                        \<not> at_least_2_common (snd (chain_groups ! i)) (snd (chain_groups ! j)))"
    unfolding l by blast
  have k0: "chain_groups ! 0 \<in> set (remove_redundant_groups chain_groups)"
    using r [of 0] by simp
  have k1: "chain_groups ! 1 \<notin> set (remove_redundant_groups chain_groups)"
    using r [of 1] k0 a01 by auto
  have "\<forall>i < 2. chain_groups ! i \<in> set (remove_redundant_groups chain_groups) \<longrightarrow>
           \<not> at_least_2_common (snd (chain_groups ! i)) (snd (chain_groups ! 2))"
  proof (intro allI impI)
    fix i :: nat
    assume "i < 2" and "chain_groups ! i \<in> set (remove_redundant_groups chain_groups)"
    then have "i = 0" using k1 by (cases "i = 1") auto
    then show "\<not> at_least_2_common (snd (chain_groups ! i)) (snd (chain_groups ! 2))"
      using a02 by simp
  qed
  then have k2: "chain_groups ! 2 \<in> set (remove_redundant_groups chain_groups)"
    using r [of 2] by simp
  from w n k0 k1 k2 show ?thesis by simp
qed

text \<open>
  C1 as stated fails on the same chain, which is sorted and free of duplicates: its
  second and third group are distinct and share two touch dates, but the second (the
  earlier one) is not retained and the third (the later one) is not discarded.
\<close>

theorem remove_redundant_groups_counterexample:
  "wf_groups chain_groups \<and> no_duplicates chain_groups \<and>
   sorted (map (\<lambda>g. - fst g) chain_groups) \<and>
   \<not> tuple_eq (chain_groups ! 1) (chain_groups ! 2) \<and>
   at_least_2_common (snd (chain_groups ! 1)) (snd (chain_groups ! 2)) \<and>
   chain_groups ! 1 \<notin> set (remove_redundant_groups chain_groups) \<and>
   chain_groups ! 2 \<in> set (remove_redundant_groups chain_groups)"
  by code_simp

text \<open>
  C4. For every candidate mapping and every tolerance function, and so for the one
  \<open>process_groups\<close> derives from the price column, every element of the list that
  \<open>manipulate_groups\<close> followed by \<open>remove_redundant_groups\<close> returns is a pair whose
  touch count is at least 3 and equals the number of entries of its mapping from dates to
  prices (the length of the association list, whose keys are pairwise different).
\<close>

theorem process_groups_touch_count:
  "(g \<in> set (remove_redundant_groups (manipulate_groups
                (create_tolerance_group possible_levels_values within_tolerance))) \<longrightarrow>
      3 \<le> fst g \<and> fst g = int (length (snd g)) \<and> distinct (map fst (snd g))) \<and>
   (process_groups series possible_levels_values = Inr out \<and> g' \<in> set out \<longrightarrow>
      3 \<le> fst g' \<and> fst g' = int (length (snd g')) \<and> distinct (map fst (snd g')))"
proof -
  have main: "\<And>f h. h \<in> set (remove_redundant_groups (manipulate_groups
                (create_tolerance_group possible_levels_values f))) \<Longrightarrow>
      3 \<le> fst h \<and> fst h = int (length (snd h)) \<and> distinct (map fst (snd h))"
  proof -
    fix f h
    assume "h \<in> set (remove_redundant_groups (manipulate_groups
                (create_tolerance_group possible_levels_values f)))"
    then have "h \<in> set (manipulate_groups (create_tolerance_group possible_levels_values f))"
      using set_remove_redundant_groups by blast
    from set_manipulate_groups [OF this] groups_wf_create [of possible_levels_values f]
    show "3 \<le> fst h \<and> fst h = int (length (snd h)) \<and> distinct (map fst (snd h))"
      by (auto simp: groups_wf_def)
  qed
  show ?thesis
  proof (rule conjI; rule impI)
    assume "g \<in> set (remove_redundant_groups (manipulate_groups
                (create_tolerance_group possible_levels_values within_tolerance)))"
    then show "3 \<le> fst g \<and> fst g = int (length (snd g)) \<and> distinct (map fst (snd g))"
      by (rule main)
  next
    assume a: "process_groups series possible_levels_values = Inr out \<and> g' \<in> set out"
    then obtain f where
      "out = remove_redundant_groups (manipulate_groups
                (create_tolerance_group possible_levels_values f))"
      by (auto simp: process_groups_def split: sum.splits)
    with a main [of g' f]
    show "3 \<le> fst g' \<and> fst g' = int (length (snd g')) \<and> distinct (map fst (snd g'))"
      by blast
  qed
qed

theorem process_groups_touch_count_witness:
  "(3, [(0, 100), (10, 102), (25, 99)])
     \<in> set (remove_redundant_groups (manipulate_groups
              (create_tolerance_group [(0, 100), (10, 102), (25, 99), (30, 120)]
                 (\<lambda>value1 value2. \<bar>value1 - value2\<bar> \<le> 3)))) \<and>
   process_groups [100, 102, 99, 180] [(0, 100), (10, 102), (25, 99), (30, 120)]
     = Inr [(3, [(0, 100), (10, 102), (25, 99)])] \<and>
   (3 :: int) \<le> fst (3 :: int, [(0 :: int, 100 :: real), (10, 102), (25, 99)]) \<and>
   fst (3 :: int, [(0 :: int, 100 :: real), (10, 102), (25, 99)])
     = int (length (snd (3 :: int, [(0 :: int, 100 :: real), (10, 102), (25, 99)]))) \<and>
   distinct (map fst (snd (3 :: int, [(0 :: int, 100 :: real), (10, 102), (25, 99)])))"
proof -
  have c: "remove_redundant_groups (manipulate_groups
              (create_tolerance_group [(0, 100), (10, 102), (25, 99), (30, 120)]
                 (\<lambda>value1 value2. \<bar>value1 - value2\<bar> \<le> 3)))
           = [(3, [(0, 100), (10, 102), (25, 99)])]"
    by code_simp
  have m: "(3, [(0, 100), (10, 102), (25, 99)])
     \<in> set (remove_redundant_groups (manipulate_groups
              (create_tolerance_group [(0, 100), (10, 102), (25, 99), (30, 120)]
                 (\<lambda>value1 value2. \<bar>value1 - value2\<bar> \<le> 3))))"
    unfolding c by simp
  have r: "process_groups [100, 102, 99, 180] [(0, 100), (10, 102), (25, 99), (30, 120)]
     = Inr [(3, [(0, 100), (10, 102), (25, 99)])]"
    by code_simp
  have m': "(3, [(0, 100), (10, 102), (25, 99)])
      \<in> set [(3 :: int, [(0 :: int, 100 :: real), (10, 102), (25, 99)])]"
    by simp
  note t = process_groups_touch_count [of "(3, [(0, 100), (10, 102), (25, 99)])"
      "[(0, 100), (10, 102), (25, 99), (30, 120)]" "\<lambda>value1 value2. \<bar>value1 - value2\<bar> \<le> 3"
      "[100, 102, 99, 180]" "[(3, [(0, 100), (10, 102), (25, 99)])]"
      "(3, [(0, 100), (10, 102), (25, 99)])"]
  from t m have p: "(3 :: int) \<le> fst (3 :: int, [(0 :: int, 100 :: real), (10, 102), (25, 99)]) \<and>
     fst (3 :: int, [(0 :: int, 100 :: real), (10, 102), (25, 99)])
       = int (length (snd (3 :: int, [(0 :: int, 100 :: real), (10, 102), (25, 99)]))) \<and>
     distinct (map fst (snd (3 :: int, [(0 :: int, 100 :: real), (10, 102), (25, 99)])))"
    by blast
  from t r m' have "distinct (map fst (snd (3 :: int, [(0 :: int, 100 :: real), (10, 102), (25, 99)])))"
    by blast
  with m r p show ?thesis by (intro conjI) auto
qed

text \<open>
  C5. \<open>remove_redundant_groups\<close> is idempotent: applied to its own output it returns
  that output unchanged, for every list of scored groups (of Python dictionaries, whose
  keys are pairwise different).
\<close>

theorem remove_redundant_groups_idempotent:
  "wf_groups gs \<Longrightarrow>
   remove_redundant_groups (remove_redundant_groups gs) = remove_redundant_groups gs"
  by (simp add: remove_redundant_groups_greedy wf_greedy_groups greedy_groups_fixed
      greedy_groups_no_overlaps)


theorem remove_redundant_groups_idempotent_witness:
  "wf_groups chain_groups \<and>
   remove_redundant_groups (remove_redundant_groups chain_groups)
     = remove_redundant_groups chain_groups"
proof -
  have w: "wf_groups chain_groups" by code_simp
  from remove_redundant_groups_idempotent [OF w] w show ?thesis by simp
qed

section \<open>Properties of the level validation\<close>

lemma sorted_hd_Min: "sorted xs \<Longrightarrow> xs \<noteq> [] \<Longrightarrow> hd xs = Min (set xs)"
  by (cases xs) (auto intro!: Min_eqI [symmetric])

lemma sorted_last_Max: "sorted xs \<Longrightarrow> xs \<noteq> [] \<Longrightarrow> last xs = Max (set xs)"
proof (induction xs)
  case Nil
  then show ?case by simp
next
  case (Cons x xs)
  show ?case
  proof (cases "xs = []")
    case True
    then show ?thesis by simp
  next
    case False
    with Cons have l: "last xs = Max (set xs)" by simp
    have "x \<le> last xs" using Cons.prems False by auto
    then have "Max (set (x # xs)) = Max (set xs)" using False l by (simp add: max_def)
    with l False show ?thesis by simp
  qed
qed

lemma dates_sorted:
  assumes "snd level \<noteq> []"
  shows "\<exists>rest. rev (sort (map fst (snd level))) = Max (fst ` set (snd level)) # rest \<and>
           last (rev (sort (map fst (snd level)))) = Min (fst ` set (snd level))"
proof -
  let ?s = "sort (map fst (snd level))"
  have ne: "?s \<noteq> []" using assms by (metis length_0_conv length_map length_sort)
  have s: "sorted ?s" by simp
  have st: "set ?s = fst ` set (snd level)" by simp
  have h: "hd (rev ?s) = Max (fst ` set (snd level))"
    using sorted_last_Max [OF s ne] ne by (simp add: hd_rev st)
  have l: "last (rev ?s) = Min (fst ` set (snd level))"
    using sorted_hd_Min [OF s ne] ne by (simp add: last_rev st)
  have "rev ?s \<noteq> []" using ne by simp
  then have "rev ?s = hd (rev ?s) # tl (rev ?s)" by simp
  with h l show ?thesis by metis
qed

lemma tolerance_defined:
  "column \<noteq> [] \<Longrightarrow> \<exists>tolerance. calculate_tolerance column = Inr tolerance"
  by (cases column) (simp_all add: calculate_tolerance_def series_range_def)

lemma mean_defined: "xs \<noteq> [] \<Longrightarrow> mean xs = Inr (sum_list xs / real (length xs))"
  by (simp add: mean_def)

lemma is_support_valid_eq:
  assumes "snd level \<noteq> []" and "calculate_tolerance (map snd (rows table)) = Inr tolerance"
  shows "is_support_valid level table =
     (Inr (filter (\<lambda>(date, price).
                    price < sum_list (map snd (snd level)) / real (length (snd level)) - real_of_int tolerance \<and>
                    date \<ge> Min (fst ` set (snd level)) \<and> date \<le> Max (fst ` set (snd level)))
                  (rows table) = []),
      table\<lparr>columns := (''date'', ''price'')\<rparr>)"
proof -
  from dates_sorted [OF assms(1)] obtain rest where
    d: "rev (sort (map fst (snd level))) = Max (fst ` set (snd level)) # rest"
    and l: "last (rev (sort (map fst (snd level)))) = Min (fst ` set (snd level))" by blast
  have l': "last (Max (fst ` set (snd level)) # rest) = Min (fst ` set (snd level))"
    using l by (simp only: d)
  show ?thesis
    unfolding is_support_valid_def Let_def d
    using assms l' by (simp add: mean_def del: last.simps)
qed

lemma is_resistance_valid_eq:
  assumes "snd level \<noteq> []" and "calculate_tolerance (map snd (rows table)) = Inr tolerance"
  shows "is_resistance_valid level table =
     (Inr (filter (\<lambda>(date, price).
                    price > sum_list (map snd (snd level)) / real (length (snd level)) + real_of_int tolerance \<and>
                    date \<ge> Min (fst ` set (snd level)) \<and> date \<le> Max (fst ` set (snd level)))
                  (rows table) = []),
      table\<lparr>columns := (''date'', ''price'')\<rparr>)"
proof -
  from dates_sorted [OF assms(1)] obtain rest where
    d: "rev (sort (map fst (snd level))) = Max (fst ` set (snd level)) # rest"
    and l: "last (rev (sort (map fst (snd level)))) = Min (fst ` set (snd level))" by blast
  have l': "last (Max (fst ` set (snd level)) # rest) = Min (fst ` set (snd level))"
    using l by (simp only: d)
  show ?thesis
    unfolding is_resistance_valid_def Let_def d
    using assms l' by (simp add: mean_def del: last.simps)
qed

lemma is_support_broken_eq:
  assumes "snd level \<noteq> []" and "calculate_tolerance (map snd (rows table)) = Inr tolerance"
  shows "is_support_broken level table =
     (Inr (filter (\<lambda>(date, price).
                    price < sum_list (map snd (snd level)) / real (length (snd level)) - real_of_int tolerance \<and>
                    date > Max (fst ` set (snd level)))
                  (rows table) \<noteq> [],
           filter (\<lambda>(date, price).
                    price < sum_list (map snd (snd level)) / real (length (snd level)) - real_of_int tolerance \<and>
                    date > Max (fst ` set (snd level)))
                  (rows table)),
      table\<lparr>columns := (''date'', ''price'')\<rparr>)"
proof -
  from dates_sorted [OF assms(1)] obtain rest where
    d: "rev (sort (map fst (snd level))) = Max (fst ` set (snd level)) # rest"
    and l: "last (rev (sort (map fst (snd level)))) = Min (fst ` set (snd level))" by blast
  have l': "last (Max (fst ` set (snd level)) # rest) = Min (fst ` set (snd level))"
    using l by (simp only: d)
  show ?thesis
    unfolding is_support_broken_def Let_def d
    using assms l' by (simp add: mean_def del: last.simps)
qed

lemma is_resistance_broken_eq:
  assumes "snd level \<noteq> []" and "calculate_tolerance (map snd (rows table)) = Inr tolerance"
  shows "is_resistance_broken level table =
     (Inr (filter (\<lambda>(date, price).
                    price > sum_list (map snd (snd level)) / real (length (snd level)) + real_of_int tolerance \<and>
                    date > Max (fst ` set (snd level)))
                  (rows table) \<noteq> [],
           filter (\<lambda>(date, price).
                    price > sum_list (map snd (snd level)) / real (length (snd level)) + real_of_int tolerance \<and>
                    date > Max (fst ` set (snd level)))
                  (rows table)),
      table\<lparr>columns := (''date'', ''price'')\<rparr>)"
proof -
  from dates_sorted [OF assms(1)] obtain rest where
    d: "rev (sort (map fst (snd level))) = Max (fst ` set (snd level)) # rest"
    and l: "last (rev (sort (map fst (snd level)))) = Min (fst ` set (snd level))" by blast
  have l': "last (Max (fst ` set (snd level)) # rest) = Min (fst ` set (snd level))"
    using l by (simp only: d)
  show ?thesis
    unfolding is_resistance_broken_def Let_def d
    using assms l' by (simp add: mean_def del: last.simps)
qed

lemma validators_no_touch:
  "snd level = [] \<Longrightarrow> is_support_valid level table = (Inl IndexError, table)"
  "snd level = [] \<Longrightarrow> is_resistance_valid level table = (Inl IndexError, table)"
  "snd level = [] \<Longrightarrow> is_support_broken level table = (Inl IndexError, table)"
  "snd level = [] \<Longrightarrow> is_resistance_broken level table = (Inl IndexError, table)"
  by (simp_all add: is_support_valid_def is_resistance_valid_def is_support_broken_def
      is_resistance_broken_def)

lemma validators_no_row:
  assumes "snd level \<noteq> []" and "rows table = []"
  shows
    "is_support_valid level table =
       (Inl (ValueError ''max() arg is an empty sequence''), table\<lparr>columns := (''date'', ''price'')\<rparr>)"
    "is_resistance_valid level table =
       (Inl (ValueError ''max() arg is an empty sequence''), table\<lparr>columns := (''date'', ''price'')\<rparr>)"
    "is_support_broken level table =
       (Inl (ValueError ''max() arg is an empty sequence''), table\<lparr>columns := (''date'', ''price'')\<rparr>)"
    "is_resistance_broken level table =
       (Inl (ValueError ''max() arg is an empty sequence''), table\<lparr>columns := (''date'', ''price'')\<rparr>)"
proof -
  from dates_sorted [OF assms(1)] obtain rest where
    d: "rev (sort (map fst (snd level))) = Max (fst ` set (snd level)) # rest" by blast
  have t: "calculate_tolerance [] = Inl (ValueError ''max() arg is an empty sequence'')"
    by (simp add: calculate_tolerance_def series_range_def)
  show "is_support_valid level table =
       (Inl (ValueError ''max() arg is an empty sequence''), table\<lparr>columns := (''date'', ''price'')\<rparr>)"
    unfolding is_support_valid_def Let_def d using assms t by (simp add: mean_def del: last.simps)
  show "is_resistance_valid level table =
       (Inl (ValueError ''max() arg is an empty sequence''), table\<lparr>columns := (''date'', ''price'')\<rparr>)"
    unfolding is_resistance_valid_def Let_def d using assms t by (simp add: mean_def del: last.simps)
  show "is_support_broken level table =
       (Inl (ValueError ''max() arg is an empty sequence''), table\<lparr>columns := (''date'', ''price'')\<rparr>)"
    unfolding is_support_broken_def Let_def d using assms t by (simp add: mean_def del: last.simps)
  show "is_resistance_broken level table =
       (Inl (ValueError ''max() arg is an empty sequence''), table\<lparr>columns := (''date'', ''price'')\<rparr>)"
    unfolding is_resistance_broken_def Let_def d using assms t by (simp add: mean_def del: last.simps)
qed

lemma filter_empty_iff: "filter (\<lambda>(d, p). P d p) xs = [] \<longleftrightarrow> \<not> (\<exists>(d, p) \<in> set xs. P d p)"
  by (auto simp: filter_empty_conv)

text \<open>
  C2 (as amended). For every level with at least one touch and every two-column table
  of dates and prices with at least one row, \<open>is_support_valid\<close> returns \<open>True\<close> if and
  only if no row of the table whose date lies in the closed interval from the earliest to
  the latest touch date has a price strictly below the mean of the touch prices minus the
  tolerance computed from the table's price column; \<open>is_resistance_valid\<close> returns
  \<open>True\<close> if and only if no such row has a price strictly above the mean plus the
  tolerance.
\<close>

theorem level_validity:
  assumes "snd level \<noteq> []" and "rows table \<noteq> []"
  shows "\<exists>tolerance avg_price.
           calculate_tolerance (map snd (rows table)) = Inr tolerance \<and>
           mean (map snd (snd level)) = Inr avg_price \<and>
           fst (is_support_valid level table) =
             Inr (\<not> (\<exists>(date, price) \<in> set (rows table).
                        Min (fst ` set (snd level)) \<le> date \<and> date \<le> Max (fst ` set (snd level)) \<and>
                        price < avg_price - real_of_int tolerance)) \<and>
           fst (is_resistance_valid level table) =
             Inr (\<not> (\<exists>(date, price) \<in> set (rows table).
                        Min (fst ` set (snd level)) \<le> date \<and> date \<le> Max (fst ` set (snd level)) \<and>
                        price > avg_price + real_of_int tolerance))"
proof -
  from assms(2) obtain tolerance where
    t: "calculate_tolerance (map snd (rows table)) = Inr tolerance"
    using tolerance_defined [of "map snd (rows table)"] by auto
  let ?avg = "sum_list (map snd (snd level)) / real (length (snd level))"
  have m: "mean (map snd (snd level)) = Inr ?avg" using assms(1) by (simp add: mean_def)
  have s: "fst (is_support_valid level table) =
             Inr (\<not> (\<exists>(date, price) \<in> set (rows table).
                        Min (fst ` set (snd level)) \<le> date \<and> date \<le> Max (fst ` set (snd level)) \<and>
                        price < ?avg - real_of_int tolerance))"
    unfolding is_support_valid_eq [OF assms(1) t] fst_conv filter_empty_iff
    by (simp add: conj_commute conj_left_commute)
  have r: "fst (is_resistance_valid level table) =
             Inr (\<not> (\<exists>(date, price) \<in> set (rows table).
                        Min (fst ` set (snd level)) \<le> date \<and> date \<le> Max (fst ` set (snd level)) \<and>
                        price > ?avg + real_of_int tolerance))"
    unfolding is_resistance_valid_eq [OF assms(1) t] fst_conv filter_empty_iff
    by (simp add: conj_commute conj_left_commute)
  from t m s r show ?thesis by blast
qed

theorem level_validity_witness:
  "snd sample_touches \<noteq> [] \<and> rows sample_table \<noteq> [] \<and>
   (\<exists>tolerance avg_price.
      calculate_tolerance (map snd (rows sample_table)) = Inr tolerance \<and>
      mean (map snd (snd sample_touches)) = Inr avg_price \<and>
      fst (is_support_valid sample_touches sample_table) =
        Inr (\<not> (\<exists>(date, price) \<in> set (rows sample_table).
                   Min (fst ` set (snd sample_touches)) \<le> date \<and>
                   date \<le> Max (fst ` set (snd sample_touches)) \<and>
                   price < avg_price - real_of_int tolerance)) \<and>
      fst (is_resistance_valid sample_touches sample_table) =
        Inr (\<not> (\<exists>(date, price) \<in> set (rows sample_table).
                   Min (fst ` set (snd sample_touches)) \<le> date \<and>
                   date \<le> Max (fst ` set (snd sample_touches)) \<and>
                   price > avg_price + real_of_int tolerance))) \<and>
   fst (is_support_valid sample_touches sample_table) = Inr True \<and>
   fst (is_resistance_valid sample_touches sample_table) = Inr False"
proof -
  have h1: "snd sample_touches \<noteq> []" by (simp add: sample_touches_def)
  have h2: "rows sample_table \<noteq> []" by (simp add: sample_table_def)
  have v1: "fst (is_support_valid sample_touches sample_table) = Inr True" by code_simp
  have v2: "fst (is_resistance_valid sample_touches sample_table) = Inr False" by code_simp
  from level_validity [OF h1 h2] h1 h2 v1 v2 show ?thesis by (intro conjI)
qed

text \<open>
  C2 as stated fails on a table without rows: no row violates the level, yet neither
  function returns \<open>True\<close>; both raise the \<open>ValueError\<close> of \<open>max\<close> on the empty price
  column.
\<close>

theorem level_validity_counterexample:
  "snd sample_touches \<noteq> [] \<and> rows empty_table = [] \<and>
   fst (is_support_valid sample_touches empty_table)
     = Inl (ValueError ''max() arg is an empty sequence'') \<and>
   fst (is_resistance_valid sample_touches empty_table)
     = Inl (ValueError ''max() arg is an empty sequence'')"
  by code_simp

text \<open>
  C3 (as amended). For every level with at least one touch and every two-column table
  with at least one row, \<open>is_support_broken\<close> returns \<open>is_breached = True\<close> if and only
  if some row dated strictly after the latest touch date has a price below the mean touch
  price minus the tolerance, and \<open>breach_data\<close> holds exactly those rows, in table order;
  \<open>is_resistance_broken\<close> is the mirror, with prices above the mean plus the tolerance.
\<close>

theorem level_breach:
  assumes "snd level \<noteq> []" and "rows table \<noteq> []"
  shows "\<exists>tolerance avg_price.
           calculate_tolerance (map snd (rows table)) = Inr tolerance \<and>
           mean (map snd (snd level)) = Inr avg_price \<and>
           fst (is_support_broken level table) =
             Inr ((\<exists>(date, price) \<in> set (rows table).
                     Max (fst ` set (snd level)) < date \<and>
                     price < avg_price - real_of_int tolerance),
                  filter (\<lambda>(date, price).
                            Max (fst ` set (snd level)) < date \<and>
                            price < avg_price - real_of_int tolerance)
                         (rows table)) \<and>
           fst (is_resistance_broken level table) =
             Inr ((\<exists>(date, price) \<in> set (rows table).
                     Max (fst ` set (snd level)) < date \<and>
                     price > avg_price + real_of_int tolerance),
                  filter (\<lambda>(date, price).
                            Max (fst ` set (snd level)) < date \<and>
                            price > avg_price + real_of_int tolerance)
                         (rows table))"
proof -
  from assms(2) obtain tolerance where
    t: "calculate_tolerance (map snd (rows table)) = Inr tolerance"
    using tolerance_defined [of "map snd (rows table)"] by auto
  let ?avg = "sum_list (map snd (snd level)) / real (length (snd level))"
  have m: "mean (map snd (snd level)) = Inr ?avg" using assms(1) by (simp add: mean_def)
  have c: "\<And>P Q. (\<lambda>(date :: int, price :: real). P price \<and> Q date) = (\<lambda>(date, price). Q date \<and> P price)"
    by (auto simp: fun_eq_iff)
  have s: "fst (is_support_broken level table) =
             Inr ((\<exists>(date, price) \<in> set (rows table).
                     Max (fst ` set (snd level)) < date \<and> price < ?avg - real_of_int tolerance),
                  filter (\<lambda>(date, price).
                            Max (fst ` set (snd level)) < date \<and> price < ?avg - real_of_int tolerance)
                         (rows table))"
    unfolding is_support_broken_eq [OF assms(1) t] fst_conv c
    by (simp add: filter_empty_iff)
  have r: "fst (is_resistance_broken level table) =
             Inr ((\<exists>(date, price) \<in> set (rows table).
                     Max (fst ` set (snd level)) < date \<and> price > ?avg + real_of_int tolerance),
                  filter (\<lambda>(date, price).
                            Max (fst ` set (snd level)) < date \<and> price > ?avg + real_of_int tolerance)
                         (rows table))"
    unfolding is_resistance_broken_eq [OF assms(1) t] fst_conv c
    by (simp add: filter_empty_iff)
  from t m s r show ?thesis by blast
qed

theorem level_breach_witness:
  "snd sample_touches \<noteq> [] \<and> rows sample_table \<noteq> [] \<and>
   (\<exists>tolerance avg_price.
      calculate_tolerance (map snd (rows sample_table)) = Inr tolerance \<and>
      mean (map snd (snd sample_touches)) = Inr avg_price \<and>
      fst (is_support_broken sample_touches sample_table) =
        Inr ((\<exists>(date, price) \<in> set (rows sample_table).
                Max (fst ` set (snd sample_touches)) < date \<and>
                price < avg_price - real_of_int tolerance),
             filter (\<lambda>(date, price).
                       Max (fst ` set (snd sample_touches)) < date \<and>
                       price < avg_price - real_of_int tolerance)
                    (rows sample_table)) \<and>
      fst (is_resistance_broken sample_touches sample_table) =
        Inr ((\<exists>(date, price) \<in> set (rows sample_table).
                Max (fst ` set (snd sample_touches)) < date \<and>
                price > avg_price + real_of_int tolerance),
             filter (\<lambda>(date, price).
                       Max (fst ` set (snd sample_touches)) < date \<and>
                       price > avg_price + real_of_int tolerance)
                    (rows sample_table))) \<and>
   fst (is_support_broken sample_touches sample_table) = Inr (True, [(30, 95)]) \<and>
   fst (is_resistance_broken sample_touches sample_table) = Inr (True, [(35, 112)])"
proof -
  have h1: "snd sample_touches \<noteq> []" by (simp add: sample_touches_def)
  have h2: "rows sample_table \<noteq> []" by (simp add: sample_table_def)
  have v1: "fst (is_support_broken sample_touches sample_table) = Inr (True, [(30, 95)])"
    by code_simp
  have v2: "fst (is_resistance_broken sample_touches sample_table) = Inr (True, [(35, 112)])"
    by code_simp
  from level_breach [OF h1 h2] h1 h2 v1 v2 show ?thesis by (intro conjI)
qed

text \<open>
  C3 as stated fails for a level without touches (\<open>IndexError\<close> from \<open>dates[0]\<close>) and
  for a table without rows (\<open>ValueError\<close> from \<open>max\<close>): nothing is returned.
\<close>

theorem level_breach_counterexample:
  "fst (is_support_broken (0, []) sample_table) = Inl IndexError \<and>
   fst (is_resistance_broken (0, []) sample_table) = Inl IndexError \<and>
   fst (is_support_broken sample_touches empty_table)
     = Inl (ValueError ''max() arg is an empty sequence'') \<and>
   fst (is_resistance_broken sample_touches empty_table)
     = Inl (ValueError ''max() arg is an empty sequence'')"
  by code_simp

text \<open>
  C10 (as amended). For every level with at least one touch and every table, each of
  \<open>is_support_valid\<close>, \<open>is_support_broken\<close>, \<open>is_resistance_valid\<close> and
  \<open>is_resistance_broken\<close> leaves the rows of the table unchanged and renames the
  caller's columns to \<open>date\<close> and \<open>price\<close>, whether it then returns or raises. For a
  level without touches each of them raises \<open>IndexError\<close> before the assignment and
  leaves the table as it was.
\<close>

theorem validators_rename_columns:
  "(snd level \<noteq> [] \<longrightarrow>
      snd (is_support_valid level table) = table\<lparr>columns := (''date'', ''price'')\<rparr> \<and>
      snd (is_support_broken level table) = table\<lparr>columns := (''date'', ''price'')\<rparr> \<and>
      snd (is_resistance_valid level table) = table\<lparr>columns := (''date'', ''price'')\<rparr> \<and>
      snd (is_resistance_broken level table) = table\<lparr>columns := (''date'', ''price'')\<rparr>) \<and>
   (snd level = [] \<longrightarrow>
      is_support_valid level table = (Inl IndexError, table) \<and>
      is_support_broken level table = (Inl IndexError, table) \<and>
      is_resistance_valid level table = (Inl IndexError, table) \<and>
      is_resistance_broken level table = (Inl IndexError, table))"
proof (intro conjI impI)
  assume ne: "snd level \<noteq> []"
  show "snd (is_support_valid level table) = table\<lparr>columns := (''date'', ''price'')\<rparr>"
  proof (cases "rows table = []")
    case True
    then show ?thesis by (simp add: validators_no_row(1) [OF ne])
  next
    case False
    then obtain tolerance where "calculate_tolerance (map snd (rows table)) = Inr tolerance"
      using tolerance_defined [of "map snd (rows table)"] by auto
    then show ?thesis by (simp add: is_support_valid_eq [OF ne])
  qed
  show "snd (is_support_broken level table) = table\<lparr>columns := (''date'', ''price'')\<rparr>"
  proof (cases "rows table = []")
    case True
    then show ?thesis by (simp add: validators_no_row(3) [OF ne])
  next
    case False
    then obtain tolerance where "calculate_tolerance (map snd (rows table)) = Inr tolerance"
      using tolerance_defined [of "map snd (rows table)"] by auto
    then show ?thesis by (simp add: is_support_broken_eq [OF ne])
  qed
  show "snd (is_resistance_valid level table) = table\<lparr>columns := (''date'', ''price'')\<rparr>"
  proof (cases "rows table = []")
    case True
    then show ?thesis by (simp add: validators_no_row(2) [OF ne])
  next
    case False
    then obtain tolerance where "calculate_tolerance (map snd (rows table)) = Inr tolerance"
      using tolerance_defined [of "map snd (rows table)"] by auto
    then show ?thesis by (simp add: is_resistance_valid_eq [OF ne])
  qed
  show "snd (is_resistance_broken level table) = table\<lparr>columns := (''date'', ''price'')\<rparr>"
  proof (cases "rows table = []")
    case True
    then show ?thesis by (simp add: validators_no_row(4) [OF ne])
  next
    case False
    then obtain tolerance where "calculate_tolerance (map snd (rows table)) = Inr tolerance"
      using tolerance_defined [of "map snd (rows table)"] by auto
    then show ?thesis by (simp add: is_resistance_broken_eq [OF ne])
  qed
qed (simp_all add: validators_no_touch)

theorem validators_rename_columns_witness:
  "snd sample_touches \<noteq> [] \<and>
   snd (is_support_valid sample_touches sample_table)
     = \<lparr>columns = (''date'', ''price''), rows = rows sample_table\<rparr> \<and>
   snd (is_support_broken sample_touches sample_table)
     = \<lparr>columns = (''date'', ''price''), rows = rows sample_table\<rparr> \<and>
   snd (is_resistance_valid sample_touches sample_table)
     = \<lparr>columns = (''date'', ''price''), rows = rows sample_table\<rparr> \<and>
   snd (is_resistance_broken sample_touches sample_table)
     = \<lparr>columns = (''date'', ''price''), rows = rows sample_table\<rparr> \<and>
   snd ((0, []) :: level_tuple) = [] \<and>
   is_support_valid (0, []) sample_table = (Inl IndexError, sample_table)"
proof -
  have h1: "snd sample_touches \<noteq> []" by (simp add: sample_touches_def)
  have h2: "snd ((0, []) :: level_tuple) = []" by simp
  have t: "sample_table\<lparr>columns := (''date'', ''price'')\<rparr>
           = \<lparr>columns = (''date'', ''price''), rows = rows sample_table\<rparr>"
    by (simp add: sample_table_def)
  from validators_rename_columns [of sample_touches sample_table] h1
    validators_rename_columns [of "(0, [])" sample_table] h2
  show ?thesis by (simp add: t)
qed

text \<open>
  C10 as stated fails for a level without touches: after the call the columns still
  carry their old names.
\<close>

theorem validators_rename_columns_counterexample:
  "columns (snd (is_support_valid (0, []) sample_table)) = (''date'', ''low'') \<and>
   columns (snd (is_support_broken (0, []) sample_table)) = (''date'', ''low'') \<and>
   columns (snd (is_resistance_valid (0, []) sample_table)) = (''date'', ''low'') \<and>
   columns (snd (is_resistance_broken (0, []) sample_table)) = (''date'', ''low'')"
  by (simp add: sample_table_def is_support_valid_def is_resistance_valid_def
      is_support_broken_def is_resistance_broken_def)

section \<open>Properties of the condition filter\<close>

lemma eval_popped_result:
  "eval_popped ev conditions level = Inr ok \<Longrightarrow>
   ok \<longleftrightarrow> (\<forall>c \<in> set conditions. ev c level = Inr True)"
proof (induction conditions)
  case Nil
  then show ?case by simp
next
  case (Cons c conditions)
  then show ?case by (auto split: sum.splits if_splits)
qed

lemma eval_popped_total:
  "\<forall>c \<in> set conditions. \<exists>b. ev c level = Inr b \<Longrightarrow>
   \<exists>ok. eval_popped ev conditions level = Inr ok"
  by (induction conditions) (auto split: sum.splits)

lemma filter_loop_result:
  "filter_loop ev conditions_list breached ignore_is_breach levels = Inr result \<Longrightarrow>
   result = filter (\<lambda>l. (ignore_is_breach \<or> is_breached l = breached) \<and>
                        (\<forall>c \<in> set conditions_list. ev c l = Inr True)) levels"
proof (induction levels arbitrary: result)
  case Nil
  then show ?case by simp
next
  case (Cons level levels)
  show ?case
  proof (cases "\<not> ignore_is_breach \<and> is_breached level \<noteq> breached")
    case True
    with Cons show ?thesis by auto
  next
    case False
    with Cons.prems obtain ok filtered where
      ok: "eval_popped ev (rev conditions_list) level = Inr ok" and
      f: "filter_loop ev conditions_list breached ignore_is_breach levels = Inr filtered" and
      r: "result = (if ok then level # filtered else filtered)"
      by (auto split: sum.splits)
    from eval_popped_result [OF ok] have
      "ok \<longleftrightarrow> (\<forall>c \<in> set conditions_list. ev c level = Inr True)" by simp
    with Cons.IH [OF f] r False show ?thesis by auto
  qed
qed

lemma filter_loop_total:
  "\<forall>l \<in> set levels. \<forall>c \<in> set conditions_list. \<exists>b. ev c l = Inr b \<Longrightarrow>
   \<exists>result. filter_loop ev conditions_list breached ignore_is_breach levels = Inr result"
proof (induction levels)
  case Nil
  then show ?case by simp
next
  case (Cons level levels)
  then obtain filtered where
    f: "filter_loop ev conditions_list breached ignore_is_breach levels = Inr filtered" by auto
  from Cons.prems have "\<forall>c \<in> set (rev conditions_list). \<exists>b. ev c level = Inr b" by simp
  from eval_popped_total [of "rev conditions_list" ev level, OF this] obtain ok where
    "eval_popped ev (rev conditions_list) level = Inr ok" by blast
  with f show ?case by (cases ignore_is_breach) auto
qed

lemma filter_loop_no_conditions:
  "filter_loop ev [] breached ignore_is_breach levels =
     Inr (filter (\<lambda>l. ignore_is_breach \<or> is_breached l = breached) levels)"
  by (induction levels) auto

lemma rejected_conditions:
  "process_conditions [''average == 50''] ''support'' =
     Inl (ValueError ''Warning: Average values can not be compared using '=' operator.'')"
  "process_conditions [''average >= 50''] ''support'' =
     Inl (ValueError ''Warning: Average values can not be compared using '>=' operator. Use '>' instead.'')"
  "process_conditions [''average <= 50''] ''support'' =
     Inl (ValueError ''Warning: Average values can not be compared using '<=' operator. Use '<' instead.'')"
  "process_conditions [''average != 50''] ''support'' =
     Inl (ValueError ''Warning: Average values can not be compared using '!=' operator.'')"
  "process_conditions [''days_between == 3''] ''support'' =
     Inl (ValueError ''Warning: '==' operator can not be used with the 'num_days_bw_tests' parameter'')"
  "process_conditions [''days_between != 3''] ''support'' =
     Inl (ValueError ''Warning: '!=' operator can not be used with the 'num_days_bw_tests' parameter'')"
  "process_conditions [''average == 50''] ''resistance'' =
     Inl (ValueError ''Warning: Average values can not be compared using '=' operator.'')"
  "process_conditions [''average >= 50''] ''resistance'' =
     Inl (ValueError ''Warning: Average values can not be compared using '>=' operator. Use '>' instead.'')"
  "process_conditions [''average <= 50''] ''resistance'' =
     Inl (ValueError ''Warning: Average values can not be compared using '<=' operator. Use '<' instead.'')"
  "process_conditions [''average != 50''] ''resistance'' =
     Inl (ValueError ''Warning: Average values can not be compared using '!=' operator.'')"
  "process_conditions [''days_between == 3''] ''resistance'' =
     Inl (ValueError ''Warning: '==' operator can not be used with the 'num_days_bw_tests' parameter'')"
  "process_conditions [''days_between != 3''] ''resistance'' =
     Inl (ValueError ''Warning: '!=' operator can not be used with the 'num_days_bw_tests' parameter'')"
  by code_simp+

text \<open>
  C7. Called without condition strings and with the default keyword arguments,
  \<open>filter_supports\<close> (and \<open>filter_resistances\<close>) returns exactly the input records whose
  \<open>is_breached\<close> flag is \<open>False\<close>, in their order. With condition strings that pass
  the preprocessing and whose evaluation raises on no record, a record is returned if
  and only if its \<open>is_breached\<close> flag has the required value and every one of the
  processed condition strings evaluates to a true value on it.
\<close>

theorem filter_conjunction:
  "filter_supports ev levels [] False False = Inr (filter (\<lambda>l. \<not> is_breached l) levels) \<and>
   filter_resistances ev levels [] False False = Inr (filter (\<lambda>l. \<not> is_breached l) levels) \<and>
   (process_conditions args ''support'' = Inr conditions_list \<and>
    (\<forall>l \<in> set levels. \<forall>c \<in> set conditions_list. \<exists>b. ev ''support'' c l = Inr b) \<longrightarrow>
      filter_supports ev levels args breached False =
        Inr (filter (\<lambda>l. is_breached l = breached \<and>
                          (\<forall>c \<in> set conditions_list. ev ''support'' c l = Inr True)) levels)) \<and>
   (process_conditions args ''resistance'' = Inr conditions_list' \<and>
    (\<forall>l \<in> set levels. \<forall>c \<in> set conditions_list'. \<exists>b. ev ''resistance'' c l = Inr b) \<longrightarrow>
      filter_resistances ev levels args breached False =
        Inr (filter (\<lambda>l. is_breached l = breached \<and>
                          (\<forall>c \<in> set conditions_list'. ev ''resistance'' c l = Inr True)) levels))"
proof (intro conjI impI)
  show "filter_supports ev levels [] False False = Inr (filter (\<lambda>l. \<not> is_breached l) levels)"
    by (simp add: filter_supports_def filter_loop_no_conditions)
  show "filter_resistances ev levels [] False False = Inr (filter (\<lambda>l. \<not> is_breached l) levels)"
    by (simp add: filter_resistances_def filter_loop_no_conditions)
next
  assume a: "process_conditions args ''support'' = Inr conditions_list \<and>
    (\<forall>l \<in> set levels. \<forall>c \<in> set conditions_list. \<exists>b. ev ''support'' c l = Inr b)"
  then obtain result where
    r: "filter_loop (ev ''support'') conditions_list breached False levels = Inr result"
    using filter_loop_total [of levels conditions_list "ev ''support''" breached False] by blast
  from filter_loop_result [OF r] r a
  show "filter_supports ev levels args breached False =
        Inr (filter (\<lambda>l. is_breached l = breached \<and>
                          (\<forall>c \<in> set conditions_list. ev ''support'' c l = Inr True)) levels)"
    by (simp add: filter_supports_def)
next
  assume a: "process_conditions args ''resistance'' = Inr conditions_list' \<and>
    (\<forall>l \<in> set levels. \<forall>c \<in> set conditions_list'. \<exists>b. ev ''resistance'' c l = Inr b)"
  then obtain result where
    r: "filter_loop (ev ''resistance'') conditions_list' breached False levels = Inr result"
    using filter_loop_total [of levels conditions_list' "ev ''resistance''" breached False] by blast
  from filter_loop_result [OF r] r a
  show "filter_resistances ev levels args breached False =
        Inr (filter (\<lambda>l. is_breached l = breached \<and>
                          (\<forall>c \<in> set conditions_list'. ev ''resistance'' c l = Inr True)) levels)"
    by (simp add: filter_resistances_def)
qed

text \<open>
  C8. For every list of records and whatever the evaluator does, the filter called with
  the condition string \<open>average == 50\<close>, \<open>average >= 50\<close>, \<open>average <= 50\<close>,
  \<open>average != 50\<close>, \<open>days_between == 3\<close> or \<open>days_between != 3\<close> raises
  \<open>ValueError\<close>; the error is the result of \<open>process_conditions\<close>, which runs before
  the loop over the records.
\<close>

theorem filter_rejects_conditions:
  "process_conditions [''average == 50''] ''support'' =
     Inl (ValueError ''Warning: Average values can not be compared using '=' operator.'') \<and>
   filter_supports ev levels [''average == 50''] breached ignore_is_breach =
     Inl (ValueError ''Warning: Average values can not be compared using '=' operator.'') \<and>
   process_conditions [''average >= 50''] ''support'' =
     Inl (ValueError ''Warning: Average values can not be compared using '>=' operator. Use '>' instead.'') \<and>
   filter_supports ev levels [''average >= 50''] breached ignore_is_breach =
     Inl (ValueError ''Warning: Average values can not be compared using '>=' operator. Use '>' instead.'') \<and>
   process_conditions [''average <= 50''] ''support'' =
     Inl (ValueError ''Warning: Average values can not be compared using '<=' operator. Use '<' instead.'') \<and>
   filter_supports ev levels [''average <= 50''] breached ignore_is_breach =
     Inl (ValueError ''Warning: Average values can not be compared using '<=' operator. Use '<' instead.'') \<and>
   process_conditions [''average != 50''] ''support'' =
     Inl (ValueError ''Warning: Average values can not be compared using '!=' operator.'') \<and>
   filter_supports ev levels [''average != 50''] breached ignore_is_breach =
     Inl (ValueError ''Warning: Average values can not be compared using '!=' operator.'') \<and>
   process_conditions [''days_between == 3''] ''support'' =
     Inl (ValueError ''Warning: '==' operator can not be used with the 'num_days_bw_tests' parameter'') \<and>
   filter_supports ev levels [''days_between == 3''] breached ignore_is_breach =
     Inl (ValueError ''Warning: '==' operator can not be used with the 'num_days_bw_tests' parameter'') \<and>
   process_conditions [''days_between != 3''] ''support'' =
     Inl (ValueError ''Warning: '!=' operator can not be used with the 'num_days_bw_tests' parameter'') \<and>
   filter_supports ev levels [''days_between != 3''] breached ignore_is_breach =
     Inl (ValueError ''Warning: '!=' operator can not be used with the 'num_days_bw_tests' parameter'') \<and>
   process_conditions [''average == 50''] ''resistance'' =
     Inl (ValueError ''Warning: Average values can not be compared using '=' operator.'') \<and>
   filter_resistances ev levels [''average == 50''] breached ignore_is_breach =
     Inl (ValueError ''Warning: Average values can not be compared using '=' operator.'') \<and>
   process_conditions [''average >= 50''] ''resistance'' =
     Inl (ValueError ''Warning: Average values can not be compared using '>=' operator. Use '>' instead.'') \<and>
   filter_resistances ev levels [''average >= 50''] breached ignore_is_breach =
     Inl (ValueError ''Warning: Average values can not be compared using '>=' operator. Use '>' instead.'') \<and>
   process_conditions [''average <= 50''] ''resistance'' =
     Inl (ValueError ''Warning: Average values can not be compared using '<=' operator. Use '<' instead.'') \<and>
   filter_resistances ev levels [''average <= 50''] breached ignore_is_breach =
     Inl (ValueError ''Warning: Average values can not be compared using '<=' operator. Use '<' instead.'') \<and>
   process_conditions [''average != 50''] ''resistance'' =
     Inl (ValueError ''Warning: Average values can not be compared using '!=' operator.'') \<and>
   filter_resistances ev levels [''average != 50''] breached ignore_is_breach =
     Inl (ValueError ''Warning: Average values can not be compared using '!=' operator.'') \<and>
   process_conditions [''days_between == 3''] ''resistance'' =
     Inl (ValueError ''Warning: '==' operator can not be used with the 'num_days_bw_tests' parameter'') \<and>
   filter_resistances ev levels [''days_between == 3''] breached ignore_is_breach =
     Inl (ValueError ''Warning: '==' operator can not be used with the 'num_days_bw_tests' parameter'') \<and>
   process_conditions [''days_between != 3''] ''resistance'' =
     Inl (ValueError ''Warning: '!=' operator can not be used with the 'num_days_bw_tests' parameter'') \<and>
   filter_resistances ev levels [''days_between != 3''] breached ignore_is_breach =
     Inl (ValueError ''Warning: '!=' operator can not be used with the 'num_days_bw_tests' parameter'')"
  unfolding filter_supports_def filter_resistances_def rejected_conditions
  by (simp only: sum.case simp_thms)

theorem filter_conjunction_witness:
  "process_conditions [''nums > 3'', ''duration < 200''] ''support''
     = Inr [''support.num_touches > 3'', ''support.time_period_int < 200''] \<and>
   process_conditions [''nums > 3'', ''duration < 200''] ''resistance''
     = Inr [''resistance.num_touches > 3'', ''resistance.time_period_int < 200''] \<and>
   filter_supports sample_eval sample_levels [''nums > 3'', ''duration < 200''] False False
     = Inr [(sample_level 95 False)\<lparr>num_touches := 5\<rparr>] \<and>
   filter_resistances sample_eval sample_levels [''nums > 3'', ''duration < 200''] False False
     = Inr [(sample_level 95 False)\<lparr>num_touches := 5\<rparr>] \<and>
   filter_supports sample_eval sample_levels [] False False
     = Inr [sample_level 90 False,
            (sample_level 95 False)\<lparr>num_touches := 5\<rparr>,
            (sample_level 97 False)\<lparr>num_touches := 4, time_period_int := 300\<rparr>]"
proof -
  have p: "process_conditions [''nums > 3'', ''duration < 200''] ''support''
     = Inr [''support.num_touches > 3'', ''support.time_period_int < 200'']"
    by code_simp
  have p': "process_conditions [''nums > 3'', ''duration < 200''] ''resistance''
     = Inr [''resistance.num_touches > 3'', ''resistance.time_period_int < 200'']"
    by code_simp
  have e: "\<forall>l \<in> set sample_levels.
             \<forall>c \<in> set [''support.num_touches > 3'', ''support.time_period_int < 200''].
               \<exists>b. sample_eval ''support'' c l = Inr b"
    by (simp add: sample_eval_def)
  have e': "\<forall>l \<in> set sample_levels.
             \<forall>c \<in> set [''resistance.num_touches > 3'', ''resistance.time_period_int < 200''].
               \<exists>b. sample_eval ''resistance'' c l = Inr b"
    by (simp add: sample_eval_def)
  note t = filter_conjunction [of sample_eval sample_levels
      "[''nums > 3'', ''duration < 200'']"
      "[''support.num_touches > 3'', ''support.time_period_int < 200'']" False
      "[''resistance.num_touches > 3'', ''resistance.time_period_int < 200'']"]
  from t p e have s: "filter_supports sample_eval sample_levels [''nums > 3'', ''duration < 200''] False False =
        Inr (filter (\<lambda>l. is_breached l = False \<and>
                          (\<forall>c \<in> set [''support.num_touches > 3'', ''support.time_period_int < 200''].
                             sample_eval ''support'' c l = Inr True)) sample_levels)"
    by blast
  from t p' e' have r: "filter_resistances sample_eval sample_levels [''nums > 3'', ''duration < 200''] False False =
        Inr (filter (\<lambda>l. is_breached l = False \<and>
                          (\<forall>c \<in> set [''resistance.num_touches > 3'', ''resistance.time_period_int < 200''].
                             sample_eval ''resistance'' c l = Inr True)) sample_levels)"
    by blast
  from t have n: "filter_supports sample_eval sample_levels [] False False
      = Inr (filter (\<lambda>l. \<not> is_breached l) sample_levels)" by blast
  show ?thesis
    unfolding s r n using p p'
    by (simp add: sample_levels_def sample_level_def sample_eval_def)
qed

theorem filter_rejects_conditions_witness:
  "filter_supports sample_eval sample_levels [''average == 50''] False False =
     Inl (ValueError ''Warning: Average values can not be compared using '=' operator.'') \<and>
   filter_resistances sample_eval sample_levels [''days_between == 3''] False False =
     Inl (ValueError ''Warning: '==' operator can not be used with the 'num_days_bw_tests' parameter'')"
  using filter_rejects_conditions [of sample_eval sample_levels False False] by blast

section \<open>Properties of the level records\<close>

lemma length_day_gaps: "length (day_gaps ds) = length ds - 1"
  by (induction ds rule: day_gaps.induct) auto

lemma day_gaps_nonneg: "sorted ds \<Longrightarrow> \<forall>g \<in> set (day_gaps ds). 0 \<le> g"
  by (induction ds rule: day_gaps.induct) auto

lemma Support_init_gaps:
  assumes "Support_init today data_tuple breached breach_rows recents name = Inr s"
  shows "int (length (num_days_bw_tests s)) = int (length (snd data_tuple)) - 1"
    and "sorted (map fst (snd data_tuple)) \<Longrightarrow> \<forall>g \<in> set (num_days_bw_tests s). 0 \<le> g"
proof -
  from assms have g: "num_days_bw_tests s = day_gaps (map fst (snd data_tuple))"
    and ne: "snd data_tuple \<noteq> []"
    by (auto simp: Support_init_def Let_def split: if_splits)
  from ne have "1 \<le> length (snd data_tuple)" by (cases "snd data_tuple") simp_all
  then show "int (length (num_days_bw_tests s)) = int (length (snd data_tuple)) - 1"
    by (simp add: g length_day_gaps)
  show "sorted (map fst (snd data_tuple)) \<Longrightarrow> \<forall>g \<in> set (num_days_bw_tests s). 0 \<le> g"
    by (simp only: g) (rule day_gaps_nonneg)
qed

text \<open>
  C6. The claim is that the gaps of a level record are the non-negative day counts
  between consecutive touches in ascending date order. The constructor sorts the touches
  by date for \<open>data\<close> and for the time period, but takes the gaps along the insertion
  order of the dictionary: for touches inserted in the order day 10, day 0, day 25 the
  sorted dates are 0, 10, 25 and the period is 25 days, while the gaps are -10 and 25
  instead of 10 and 15.
\<close>

theorem support_gaps_unsorted_touches:
  "(case Support_init 40 (3, [(10, 102), (0, 100), (25, 99)]) False [] (''Jul 28, 2021'', 101) ''HDFC'' of
      Inl e \<Rightarrow> None
    | Inr s \<Rightarrow> Some (num_touches s, map fst (data s), time_period_int s, num_days_bw_tests s))
   = Some (3, [0, 10, 25], 25, [- 10, 25])"
  by (simp add: Support_init_def)

section \<open>Properties of the stock aggregation\<close>

lemma last_insort_key:
  "ys \<noteq> [] \<Longrightarrow> sorted (map f ys) \<Longrightarrow>
   last (insort_key f x ys) = (if f (last ys) < f x then x else last ys)"
proof (induction ys)
  case Nil
  then show ?case by simp
next
  case (Cons y ys)
  show ?case
  proof (cases "ys = []")
    case True
    then show ?thesis by auto
  next
    case False
    with Cons.prems have "f y \<le> f (last ys)" by auto
    moreover from Cons False have
      "last (insort_key f x ys) = (if f (last ys) < f x then x else last ys)" by simp
    ultimately show ?thesis using False by auto
  qed
qed

lemma last_sort_key_split:
  "xs \<noteq> [] \<Longrightarrow>
   \<exists>pre post. xs = pre @ last (sort_key f xs) # post \<and>
     (\<forall>x \<in> set pre. f x \<le> f (last (sort_key f xs))) \<and>
     (\<forall>x \<in> set post. f x < f (last (sort_key f xs)))"
proof (induction xs)
  case Nil
  then show ?case by simp
next
  case (Cons x xs)
  show ?case
  proof (cases "xs = []")
    case True
    then have "x # xs = [] @ last (sort_key f (x # xs)) # []" by simp
    then show ?thesis by (metis empty_iff list.set(1))
  next
    case False
    let ?m = "last (sort_key f xs)"
    from Cons.IH [OF False] obtain pre post where
      split: "xs = pre @ ?m # post" and
      pre: "\<forall>y \<in> set pre. f y \<le> f ?m" and
      post: "\<forall>y \<in> set post. f y < f ?m"
      by blast
    have ne: "sort_key f xs \<noteq> []" using False by (metis length_0_conv length_sort)
    have l: "last (sort_key f (x # xs)) = (if f ?m < f x then x else ?m)"
      by (simp add: last_insort_key [OF ne])
    show ?thesis
    proof (cases "f ?m < f x")
      case True
      have all: "\<forall>y \<in> set xs. f y < f x"
      proof
        fix y assume "y \<in> set xs"
        then have "y \<in> set pre \<or> y = ?m \<or> y \<in> set post"
          using arg_cong [OF split, of set] by auto
        with pre post True show "f y < f x" by force
      qed
      have "x # xs = [] @ x # xs" by simp
      with all l True show ?thesis by (metis empty_iff list.set(1))
    next
      case nless: False
      have "x # xs = (x # pre) @ ?m # post" using split by simp
      moreover have "\<forall>y \<in> set (x # pre). f y \<le> f ?m" using pre nless by auto
      ultimately show ?thesis using l nless post by metis
    qed
  qed
qed

lemma final_level_highest:
  assumes "xs \<noteq> []"
  shows "\<exists>s. final_level (Some xs) = Some s \<and> highest_avg_last xs s"
proof -
  let ?s = "last (sort_key avg xs)"
  from assms have fl: "final_level (Some xs) = Some ?s"
    by (cases xs) (simp_all add: final_level_def)
  from last_sort_key_split [OF assms, of avg] obtain pre post where
    split: "xs = pre @ ?s # post" and
    pre: "\<forall>y \<in> set pre. avg y \<le> avg ?s" and
    post: "\<forall>y \<in> set post. avg y < avg ?s"
    by blast
  have len: "length xs = length pre + Suc (length post)"
    using arg_cong [OF split, of length] by simp
  have i: "length pre < length xs" using len by simp
  have at: "xs ! length pre = ?s"
    using arg_cong [OF split, of "\<lambda>l. l ! length pre"] by simp
  have le: "\<forall>j < length xs. avg (xs ! j) \<le> avg ?s"
  proof (intro allI impI)
    fix j assume "j < length xs"
    then have "xs ! j \<in> set xs" by simp
    then have "xs ! j \<in> set pre \<or> xs ! j = ?s \<or> xs ! j \<in> set post"
      using arg_cong [OF split, of set] by auto
    with pre post show "avg (xs ! j) \<le> avg ?s" by force
  qed
  have lt: "\<forall>j < length xs. length pre < j \<longrightarrow> avg (xs ! j) < avg ?s"
  proof (intro allI impI)
    fix j assume j: "j < length xs" and gt: "length pre < j"
    from len j gt have k: "j - Suc (length pre) < length post" by arith
    have "(pre @ ?s # post) ! j = post ! (j - Suc (length pre))"
      using gt by (simp add: nth_append nth_Cons')
    then have "xs ! j = post ! (j - Suc (length pre))"
      using arg_cong [OF split, of "\<lambda>l. l ! j"] by simp
    then have "xs ! j \<in> set post" using k by simp
    with post show "avg (xs ! j) < avg ?s" by blast
  qed
  show ?thesis unfolding highest_avg_last_def using fl i at le lt by blast
qed

lemma final_level_empty: "final_level None = None" "final_level (Some []) = None"
  by (simp_all add: final_level_def)

text \<open>
  C9. A stock built from a non-empty support list and a non-empty resistance list has as
  final support and final resistance the element of each list with the highest average
  (the later element among equal averages), is range bound, and its range width is the
  final resistance's average minus the final support's average. When either list is
  empty or omitted, the stock is not range bound and has no range width.
\<close>

theorem stock_final_levels:
  "(sups \<noteq> [] \<and> ress \<noteq> [] \<longrightarrow>
      (\<exists>s r. final_support (Stock_init n (Some sups) (Some ress)) = Some s \<and>
             final_resistance (Stock_init n (Some sups) (Some ress)) = Some r \<and>
             highest_avg_last sups s \<and> highest_avg_last ress r \<and>
             is_range_bound (Stock_init n (Some sups) (Some ress)) \<and>
             range_width (Stock_init n (Some sups) (Some ress)) = Some (avg r - avg s)))
   \<and>
   (osups = None \<or> osups = Some [] \<or> oress = None \<or> oress = Some [] \<longrightarrow>
      \<not> is_range_bound (Stock_init n osups oress) \<and>
      range_width (Stock_init n osups oress) = None)"
proof (intro conjI impI)
  assume ne: "sups \<noteq> [] \<and> ress \<noteq> []"
  from ne final_level_highest [of sups] obtain s where
    s: "final_level (Some sups) = Some s" "highest_avg_last sups s" by blast
  from ne final_level_highest [of ress] obtain r where
    r: "final_level (Some ress) = Some r" "highest_avg_last ress r" by blast
  show "\<exists>s r. final_support (Stock_init n (Some sups) (Some ress)) = Some s \<and>
             final_resistance (Stock_init n (Some sups) (Some ress)) = Some r \<and>
             highest_avg_last sups s \<and> highest_avg_last ress r \<and>
             is_range_bound (Stock_init n (Some sups) (Some ress)) \<and>
             range_width (Stock_init n (Some sups) (Some ress)) = Some (avg r - avg s)"
    using s r by (intro exI [of _ s] exI [of _ r]) (simp add: Stock_init_def Let_def)
next
  assume "osups = None \<or> osups = Some [] \<or> oress = None \<or> oress = Some []"
  then have "final_level osups = None \<or> final_level oress = None"
    using final_level_empty by auto
  then show "\<not> is_range_bound (Stock_init n osups oress)"
    by (auto simp: Stock_init_def Let_def)
next
  assume "osups = None \<or> osups = Some [] \<or> oress = None \<or> oress = Some []"
  then have "final_level osups = None \<or> final_level oress = None"
    using final_level_empty by auto
  then show "range_width (Stock_init n osups oress) = None"
    by (auto simp: Stock_init_def Let_def split: option.splits)
qed

theorem stock_final_levels_witness:
  "[sample_level 90 False] \<noteq> [] \<and> [sample_level 110 False] \<noteq> [] \<and>
   is_range_bound (Stock_init ''HDFC'' (Some [sample_level 90 False])
                                        (Some [sample_level 110 False])) \<and>
   range_width (Stock_init ''HDFC'' (Some [sample_level 90 False])
                                     (Some [sample_level 110 False])) = Some 20 \<and>
   (None :: support list option) = None \<and>
   \<not> is_range_bound (Stock_init ''HDFC'' None (Some [sample_level 110 False])) \<and>
   range_width (Stock_init ''HDFC'' None (Some [sample_level 110 False])) = None"
  using stock_final_levels [of "[sample_level 90 False]" "[sample_level 110 False]"
      "''HDFC''" None "Some [sample_level 110 False]"]
  by (simp add: Stock_init_def Let_def final_level_def sample_level_def)

end
